theory Spec2Isabelle
  imports Main "HOL-Library.Sublist" "HOL-Library.AList"
begin

section \<open>Values, errors and the Python operations the script relies on\<close>

text \<open>
  The script \<^verbatim>\<open>snyk_find_org_id_by_target.py\<close> is embedded function by function.
  Exceptions are values of \<open>error\<close>; a function that may raise returns \<open>error + 'a\<close>
  with \<open>Inl\<close> for the exception. The script raises \<^verbatim>\<open>ValueError\<close> with four messages:
  the two about rate limiting are what the specification calls \<^verbatim>\<open>RateLimitExceeded\<close>,
  the one about the number of matches \<^verbatim>\<open>AmbiguousRepository\<close>, the one about empty input
  \<^verbatim>\<open>EmptyInput\<close>. A function with a loop that may not end takes fuel and returns \<open>None\<close>
  when the fuel is spent before the loop ends.
  Strings are lists of 8-bit characters; \<^verbatim>\<open>str.lower\<close> is modelled on ASCII letters.
  JSON numbers are integers (no floating point).
\<close>

datatype error =
    ValueError string
  | HTTPError nat
  | ZeroDivisionError
  | KeyError string
  | IndexError
  | TypeError
  | AttributeError
  | JSONDecodeError

datatype json =
    JNull
  | JBool bool
  | JNum int
  | JStr string
  | JArr "json list"
  | JObj "(string \<times> json) list"

text \<open>A parsed JSON object is a Python dict: keys in insertion order, no key twice.\<close>

definition bind_err :: "error + 'a \<Rightarrow> ('a \<Rightarrow> error + 'b) \<Rightarrow> error + 'b" where
  "bind_err m f = (case m of Inl e \<Rightarrow> Inl e | Inr x \<Rightarrow> f x)"

text \<open>\<^verbatim>\<open>bool(x)\<close>\<close>

fun py_truthy :: "json \<Rightarrow> bool" where
  "py_truthy JNull = False"
| "py_truthy (JBool b) = b"
| "py_truthy (JNum n) = (n \<noteq> 0)"
| "py_truthy (JStr s) = (s \<noteq> [])"
| "py_truthy (JArr xs) = (xs \<noteq> [])"
| "py_truthy (JObj kvs) = (kvs \<noteq> [])"

text \<open>\<^verbatim>\<open>len(x)\<close>\<close>

fun py_len :: "json \<Rightarrow> error + nat" where
  "py_len (JStr s) = Inr (length s)"
| "py_len (JArr xs) = Inr (length xs)"
| "py_len (JObj kvs) = Inr (length kvs)"
| "py_len _ = Inl TypeError"

text \<open>\<^verbatim>\<open>x[key]\<close> with a string key\<close>

fun py_getitem :: "json \<Rightarrow> string \<Rightarrow> error + json" where
  "py_getitem (JObj kvs) k = (case map_of kvs k of None \<Rightarrow> Inl (KeyError k) | Some v \<Rightarrow> Inr v)"
| "py_getitem _ k = Inl TypeError"

text \<open>\<^verbatim>\<open>x[0]\<close>\<close>

fun py_first :: "json \<Rightarrow> error + json" where
  "py_first (JArr xs) = (case xs of [] \<Rightarrow> Inl IndexError | x # _ \<Rightarrow> Inr x)"
| "py_first (JStr s) = (case s of [] \<Rightarrow> Inl IndexError | c # _ \<Rightarrow> Inr (JStr [c]))"
| "py_first (JObj kvs) = Inl (KeyError ''0'')"
| "py_first _ = Inl TypeError"

text \<open>\<^verbatim>\<open>x.get(key, default)\<close>: only a dict has the method\<close>

fun py_get :: "json \<Rightarrow> string \<Rightarrow> json \<Rightarrow> error + json" where
  "py_get (JObj kvs) k d = (case map_of kvs k of None \<Rightarrow> Inr d | Some v \<Rightarrow> Inr v)"
| "py_get _ k d = Inl AttributeError"

text \<open>iteration over \<^verbatim>\<open>x\<close>: the elements of a list, the keys of a dict, the characters of a string\<close>

fun py_iter :: "json \<Rightarrow> error + json list" where
  "py_iter (JArr xs) = Inr xs"
| "py_iter (JObj kvs) = Inr (map (\<lambda>kv. JStr (fst kv)) kvs)"
| "py_iter (JStr s) = Inr (map (\<lambda>c. JStr [c]) s)"
| "py_iter _ = Inl TypeError"

text \<open>\<^verbatim>\<open>sub in s\<close> on strings\<close>

fun str_in :: "string \<Rightarrow> string \<Rightarrow> bool" where
  "str_in sub [] = (sub = [])"
| "str_in sub (c # cs) = (prefix sub (c # cs) \<or> str_in sub cs)"

text \<open>\<^verbatim>\<open>key in x\<close> with a string key\<close>

fun py_in :: "string \<Rightarrow> json \<Rightarrow> error + bool" where
  "py_in k (JObj kvs) = Inr (k \<in> fst ` set kvs)"
| "py_in k (JArr xs) = Inr (JStr k \<in> set xs)"
| "py_in k (JStr s) = Inr (str_in k s)"
| "py_in k _ = Inl TypeError"

text \<open>hashable values, and \<^verbatim>\<open>==\<close> between them (\<^verbatim>\<open>True == 1\<close>, \<^verbatim>\<open>False == 0\<close>)\<close>

fun hashable :: "json \<Rightarrow> bool" where
  "hashable (JArr xs) = False"
| "hashable (JObj kvs) = False"
| "hashable _ = True"

fun py_eq :: "json \<Rightarrow> json \<Rightarrow> bool" where
  "py_eq (JBool b) (JNum n) = (n = (if b then 1 else 0))"
| "py_eq (JNum n) (JBool b) = (n = (if b then 1 else 0))"
| "py_eq x y = (x = y)"

text \<open>\<^verbatim>\<open>str.lower\<close>\<close>

definition lower_char :: "char \<Rightarrow> char" where
  "lower_char c =
     (case map_of (zip ''ABCDEFGHIJKLMNOPQRSTUVWXYZ'' ''abcdefghijklmnopqrstuvwxyz'') c of
        Some d \<Rightarrow> d
      | None \<Rightarrow> c)"

definition lower :: "string \<Rightarrow> string" where
  "lower s = map lower_char s"

text \<open>\<^verbatim>\<open>str.replace(old, new)\<close>: every occurrence, left to right, without overlap\<close>

function replace :: "string \<Rightarrow> string \<Rightarrow> string \<Rightarrow> string" where
  "replace old new [] = (if old = [] then new else [])"
| "replace old new (c # cs) =
     (if old = [] then new @ c # replace old new cs
      else if prefix old (c # cs) then new @ replace old new (drop (length old) (c # cs))
      else c # replace old new cs)"
  by pat_completeness auto
termination
  by (relation "measure (\<lambda>(old, new, s). length s)") (auto simp: neq_Nil_conv)

text \<open>decimal rendering of a natural number, as an f-string prints \<^verbatim>\<open>len(assets)\<close>\<close>

definition digit :: "nat \<Rightarrow> char" where
  "digit d = ''0123456789'' ! d"

fun str_nat :: "nat \<Rightarrow> string" where
  "str_nat n = (if n < 10 then [digit n] else str_nat (n div 10) @ [digit (n mod 10)])"

section \<open>Organization and the token manager\<close>

record organization =
  org_id :: json
  org_name :: json

text \<open>\<^verbatim>\<open>Organization.__init__\<close>: reads \<^verbatim>\<open>org_data["id"]\<close>, then
  \<^verbatim>\<open>org_data["attributes"]["name"]\<close>.\<close>

definition Organization :: "json \<Rightarrow> error + organization" where
  "Organization org_data =
     bind_err (py_getitem org_data ''id'') (\<lambda>i.
     bind_err (py_getitem org_data ''attributes'') (\<lambda>attrs.
     bind_err (py_getitem attrs ''name'') (\<lambda>n.
     Inr \<lparr>org_id = i, org_name = n\<rparr>)))"

record SnykTokenManager =
  tokens :: "string list"
  tries :: int
  idx :: nat

definition new_manager :: "string list \<Rightarrow> SnykTokenManager" where
  "new_manager toks = \<lparr>tokens = toks, tries = 5, idx = 0\<rparr>"

text \<open>\<^verbatim>\<open>next_token\<close>: \<^verbatim>\<open>self.idx % len(self.tokens)\<close> raises on an empty list.\<close>

definition next_token :: "SnykTokenManager \<Rightarrow> error + (string \<times> SnykTokenManager)" where
  "next_token m =
     (if tokens m = [] then Inl ZeroDivisionError
      else Inr (tokens m ! (idx m mod length (tokens m)), m\<lparr>idx := idx m + 1\<rparr>))"

text \<open>the tokens returned by \<open>n\<close> successive calls\<close>

fun next_tokens :: "nat \<Rightarrow> SnykTokenManager \<Rightarrow> error + (string list \<times> SnykTokenManager)" where
  "next_tokens 0 m = Inr ([], m)"
| "next_tokens (Suc n) m =
     (case next_token m of
        Inl e \<Rightarrow> Inl e
      | Inr (t, m') \<Rightarrow>
          (case next_tokens n m' of
             Inl e \<Rightarrow> Inl e
           | Inr (ts, m'') \<Rightarrow> Inr (t # ts, m'')))"

section \<open>Repository URL\<close>

definition build_repo_url :: "string \<Rightarrow> string \<Rightarrow> string" where
  "build_repo_url repo_name fallback_org =
     (if prefix ''https://'' repo_name then replace ''https://www.'' ''https://'' repo_name
      else ''https://github.com/'' @
        (if CHR ''/'' \<notin> set repo_name then fallback_org @ ''/'' @ repo_name else repo_name))"

definition default_fallback_org :: string where
  "default_fallback_org = ''vasukotha2''"

section \<open>Tie-break\<close>

text \<open>
  \<^verbatim>\<open>next(o for o in orgs if "unassigned" not in o.name.lower() and "default" not in o.name.lower())\<close>:
  the names are examined in order; \<^verbatim>\<open>.lower()\<close> exists on strings only.
\<close>

fun first_acceptable :: "organization list \<Rightarrow> error + organization option" where
  "first_acceptable [] = Inr None"
| "first_acceptable (o1 # os) =
     (case org_name o1 of
        JStr n \<Rightarrow>
          if \<not> str_in ''unassigned'' (lower n) \<and> \<not> str_in ''default'' (lower n) then Inr (Some o1)
          else first_acceptable os
      | _ \<Rightarrow> Inl AttributeError)"

definition get_best_org :: "organization list \<Rightarrow> error + organization" where
  "get_best_org orgs =
     (case orgs of
        [] \<Rightarrow> Inl (ValueError ''orgs cannot be empty.'')
      | o1 # _ \<Rightarrow>
          (case first_acceptable orgs of
             Inl e \<Rightarrow> Inl e
           | Inr (Some org) \<Rightarrow> Inr org
           | Inr None \<Rightarrow> Inr o1))"

section \<open>HTTP: requests, responses, the world\<close>

text \<open>
  The platform is a deterministic server: its answer to a request may depend on the request
  and on how many requests were sent before it. \<open>payload\<close> is what \<^verbatim>\<open>r.json()\<close> returns,
  \<open>None\<close> when the body is not JSON. The world records the state the script changes:
  the token manager, the requests sent, the arguments of \<^verbatim>\<open>time.sleep\<close>, the log and the
  standard output.
\<close>

datatype http_method = GET | POST

record request =
  req_method :: http_method
  req_url :: string
  req_headers :: "(string \<times> string) list"
  req_params :: "(string \<times> json) list option"
  req_json :: "json option"
  req_timeout :: nat

record response =
  status_code :: nat
  payload :: "json option"

type_synonym server = "nat \<Rightarrow> request \<Rightarrow> response"

datatype level = INFO | WARNING | ERROR

datatype log_arg = LStr string | LNat nat | LJson json

record world =
  cm :: SnykTokenManager
  sent :: "request list"
  slept :: "nat list"
  logged :: "(level \<times> log_arg \<times> log_arg list) list"
  printed :: "string list"

definition http_send :: "server \<Rightarrow> request \<Rightarrow> world \<Rightarrow> response \<times> world" where
  "http_send srv req w = (srv (length (sent w)) req, w\<lparr>sent := sent w @ [req]\<rparr>)"

definition log_msg :: "level \<Rightarrow> log_arg \<Rightarrow> log_arg list \<Rightarrow> world \<Rightarrow> world" where
  "log_msg l m as w = w\<lparr>logged := logged w @ [(l, m, as)]\<rparr>"

definition sleep :: "nat \<Rightarrow> world \<Rightarrow> world" where
  "sleep s w = w\<lparr>slept := slept w @ [s]\<rparr>"

definition API_VERSION :: string where
  "API_VERSION = ''2024-10-15''"

definition auth_headers :: "string \<Rightarrow> (string \<times> string) list" where
  "auth_headers tok = [(''Accept'', ''application/json''), (''Authorization'', tok)]"

text \<open>\<^verbatim>\<open>Response.raise_for_status\<close>\<close>

definition raise_for_status :: "response \<Rightarrow> error + unit" where
  "raise_for_status r =
     (if 400 \<le> status_code r \<and> status_code r < 600 then Inl (HTTPError (status_code r))
      else Inr ())"

section \<open>The asset search: \<^verbatim>\<open>fetch_repo_data\<close>\<close>

definition search_query :: "string \<Rightarrow> json" where
  "search_query repo =
     JObj [(''query'',
       JObj [(''attributes'',
         JObj [(''operator'', JStr ''and''),
               (''values'', JArr [
                  JObj [(''attribute'', JStr ''type''), (''operator'', JStr ''equal''),
                        (''values'', JArr [JStr ''repository''])],
                  JObj [(''attribute'', JStr ''repository_url''), (''operator'', JStr ''equal''),
                        (''values'', JArr [JStr (build_repo_url repo default_fallback_org)])]])])])]"

definition search_url :: "string \<Rightarrow> string" where
  "search_url group_id = ''https://api.snyk.io/rest/groups/'' @ group_id @ ''/assets/search''"

text \<open>
  The \<^verbatim>\<open>while True\<close> loop of \<^verbatim>\<open>fetch_repo_data\<close>, as indented in the source: the
  \<^verbatim>\<open>else: break\<close> belongs to \<^verbatim>\<open>if attempt >= max_attempts\<close>, the four statements after
  the \<^verbatim>\<open>raise\<close> are unreachable, and a response other than 429 takes no branch, so the
  loop posts again. \<open>None\<close> is the loop still running when the fuel is spent.
\<close>

fun fetch_repo_data_loop ::
  "nat \<Rightarrow> server \<Rightarrow> string \<Rightarrow> json \<Rightarrow> int \<Rightarrow> nat \<Rightarrow> int \<Rightarrow> world \<Rightarrow> ((error + response) \<times> world) option" where
  "fetch_repo_data_loop 0 srv u query max_attempts backoff attempt w = None"
| "fetch_repo_data_loop (Suc fuel) srv u query max_attempts backoff attempt w =
     (case next_token (cm w) of
        Inl e \<Rightarrow> Some (Inl e, w)
      | Inr (tok, m) \<Rightarrow>
          (case http_send srv
                  \<lparr>req_method = POST, req_url = u, req_headers = auth_headers tok,
                   req_params = Some [(''version'', JStr ''2024-10-15'')],
                   req_json = Some query, req_timeout = 60\<rparr>
                  (w\<lparr>cm := m\<rparr>) of
             (r, w') \<Rightarrow>
               if status_code r = 429 then
                 (if attempt \<ge> max_attempts
                  then Some (Inl (ValueError ''Rate-limited. Max retries exceeded.''), w')
                  else Some (Inr r, w'))
               else fetch_repo_data_loop fuel srv u query max_attempts backoff attempt w'))"

definition fetch_repo_data ::
  "nat \<Rightarrow> server \<Rightarrow> string \<Rightarrow> string \<Rightarrow> int \<Rightarrow> world \<Rightarrow> ((error + json) \<times> world) option" where
  "fetch_repo_data fuel srv repo group_id max_attempts w =
     (case fetch_repo_data_loop fuel srv (search_url group_id) (search_query repo) max_attempts 2 1 w of
        None \<Rightarrow> None
      | Some (Inl e, w') \<Rightarrow> Some (Inl e, w')
      | Some (Inr r, w') \<Rightarrow>
          Some (bind_err (raise_for_status r) (\<lambda>_.
                  case payload r of
                    None \<Rightarrow> Inl JSONDecodeError
                  | Some d \<Rightarrow> py_getitem d ''data''), w'))"

section \<open>The GET fetcher: \<^verbatim>\<open>get\<close>\<close>

text \<open>
  \<^verbatim>\<open>params = kwargs.pop("params", {})\<close>, then the defaults when the URL has no \<^verbatim>\<open>?\<close>,
  \<^verbatim>\<open>None\<close> otherwise.
\<close>

definition get_params :: "string \<Rightarrow> (string \<times> json) list \<Rightarrow> (string \<times> json) list option" where
  "get_params u ps =
     (if CHR ''?'' \<notin> set u then
        (let p1 = (if ''version'' \<notin> fst ` set ps then ps @ [(''version'', JStr API_VERSION)] else ps);
             p2 = (if ''limit'' \<notin> fst ` set p1 then p1 @ [(''limit'', JNum 100)] else p1)
         in Some p2)
      else None)"

fun get_loop ::
  "nat \<Rightarrow> server \<Rightarrow> string \<Rightarrow> (string \<times> json) list option \<Rightarrow> int \<Rightarrow> nat \<Rightarrow> int \<Rightarrow> world \<Rightarrow>
     ((error + response) \<times> world) option" where
  "get_loop 0 srv u ps max_attempts backoff attempt w = None"
| "get_loop (Suc fuel) srv u ps max_attempts backoff attempt w =
     (case next_token (cm w) of
        Inl e \<Rightarrow> Some (Inl e, w)
      | Inr (tok, m) \<Rightarrow>
          (case http_send srv
                  \<lparr>req_method = GET, req_url = u, req_headers = auth_headers tok,
                   req_params = ps, req_json = None, req_timeout = 60\<rparr>
                  (w\<lparr>cm := m\<rparr>) of
             (r, w') \<Rightarrow>
               if status_code r = 429 then
                 (if attempt = max_attempts
                  then Some (Inl (ValueError ''Rate-limited. Max attempts exceeded.''), w')
                  else get_loop fuel srv u ps max_attempts (backoff * 2) (attempt + 1)
                         (sleep backoff
                            (log_msg WARNING (LStr ''Rate-limited. Retrying in %s'') [LNat backoff] w')))
               else Some (Inr r, w')))"

definition get ::
  "nat \<Rightarrow> server \<Rightarrow> string \<Rightarrow> (string \<times> json) list \<Rightarrow> int \<Rightarrow> world \<Rightarrow>
     ((error + response) \<times> world) option" where
  "get fuel srv u ps max_attempts w = get_loop fuel srv u (get_params u ps) max_attempts 2 1 w"

section \<open>The paginator: \<^verbatim>\<open>get_data\<close>\<close>

text \<open>
  One page: the JSON of the response, the log entry when it has no \<^verbatim>\<open>data\<close>, the
  entries appended to the results, and the value of \<^verbatim>\<open>links.get("next")\<close>.
\<close>

definition page_step :: "response \<Rightarrow> json list \<Rightarrow> world \<Rightarrow> (error + (json list \<times> json)) \<times> world" where
  "page_step r results w =
     (case payload r of
        None \<Rightarrow> (Inl JSONDecodeError, w)
      | Some d \<Rightarrow>
          (case py_in ''data'' d of
             Inl e \<Rightarrow> (Inl e, w)
           | Inr has_data \<Rightarrow>
               (let w' = (if \<not> has_data then log_msg ERROR (LJson d) [] w else w)
                in (bind_err (py_get d ''data'' (JArr [])) (\<lambda>v.
                    bind_err (py_iter v) (\<lambda>items.
                    bind_err (py_get d ''links'' (JObj [])) (\<lambda>links.
                    bind_err (py_get links ''next'' JNull) (\<lambda>nxt.
                    Inr (results @ items, nxt))))), w'))))"

text \<open>
  \<^verbatim>\<open>while url:\<close> with the URL of the next page: a falsy \<^verbatim>\<open>next\<close> ends the loop, a
  non-empty string is the next URL (prefixed with the API host unless it starts with
  \<^verbatim>\<open>https://\<close>), any other truthy value has no \<^verbatim>\<open>startswith\<close>.
\<close>

fun get_data_loop ::
  "nat \<Rightarrow> server \<Rightarrow> string \<Rightarrow> (string \<times> json) list \<Rightarrow> int \<Rightarrow> json list \<Rightarrow> world \<Rightarrow>
     ((error + json list) \<times> world) option" where
  "get_data_loop 0 srv u ps max_attempts results w = None"
| "get_data_loop (Suc fuel) srv u ps max_attempts results w =
     (if u = [] then Some (Inr results, w)
      else
        (case get (Suc fuel) srv u ps max_attempts w of
           None \<Rightarrow> None
         | Some (Inl e, w1) \<Rightarrow> Some (Inl e, w1)
         | Some (Inr r, w1) \<Rightarrow>
             (case page_step r results w1 of
                (Inl e, w2) \<Rightarrow> Some (Inl e, w2)
              | (Inr (results', nxt), w2) \<Rightarrow>
                  if \<not> py_truthy nxt then Some (Inr results', w2)
                  else
                    (case nxt of
                       JStr n \<Rightarrow>
                         get_data_loop fuel srv
                           (if prefix ''https://'' n then n else ''https://api.snyk.io'' @ n)
                           ps max_attempts results' w2
                     | _ \<Rightarrow> Some (Inl AttributeError, w2)))))"

definition get_data ::
  "nat \<Rightarrow> server \<Rightarrow> string \<Rightarrow> (string \<times> json) list \<Rightarrow> int \<Rightarrow> world \<Rightarrow>
     ((error + json list) \<times> world) option" where
  "get_data fuel srv u ps max_attempts w = get_data_loop fuel srv u ps max_attempts [] w"

section \<open>The resolver: \<^verbatim>\<open>fetch_organizations\<close>\<close>

text \<open>
  \<^verbatim>\<open>add_url_params\<close> is built from \<^verbatim>\<open>urllib.parse\<close>; those library functions, and the
  rendering of a value that is not a string by an f-string or by \<^verbatim>\<open>print\<close>, are
  parameters of the model.
\<close>

record url_parts =
  scheme :: string
  netloc :: string
  path :: string
  path_params :: string
  query :: string
  fragment :: string

record pylib =
  urlparse :: "string \<Rightarrow> url_parts"
  parse_qs :: "string \<Rightarrow> (string \<times> string list) list"
  urlencode :: "(string \<times> json) list \<Rightarrow> string"
  urlunparse :: "url_parts \<Rightarrow> string"
  py_repr :: "json \<Rightarrow> string"

definition py_str :: "pylib \<Rightarrow> json \<Rightarrow> string" where
  "py_str lib j = (case j of JStr s \<Rightarrow> s | _ \<Rightarrow> py_repr lib j)"

text \<open>\<^verbatim>\<open>query.update(params)\<close>\<close>

definition dict_update :: "(string \<times> json) list \<Rightarrow> (string \<times> json) list \<Rightarrow> (string \<times> json) list" where
  "dict_update d ps = fold (\<lambda>kv acc. AList.update (fst kv) (snd kv) acc) ps d"

definition add_url_params :: "pylib \<Rightarrow> string \<Rightarrow> (string \<times> json) list \<Rightarrow> string" where
  "add_url_params lib u ps =
     (let parts = urlparse lib u;
          q = dict_update (map (\<lambda>kv. (fst kv, JArr (map JStr (snd kv)))) (parse_qs lib (query parts))) ps
      in urlunparse lib (parts\<lparr>query := urlencode lib q\<rparr>))"

text \<open>\<^verbatim>\<open>[Organization(o) for o in ...]\<close>\<close>

fun organizations :: "json list \<Rightarrow> error + organization list" where
  "organizations [] = Inr []"
| "organizations (j # js) =
     bind_err (Organization j) (\<lambda>org.
     bind_err (organizations js) (\<lambda>orgs. Inr (org # orgs)))"

text \<open>
  The set comprehension
  \<^verbatim>\<open>{p["attributes"]["organization_id"] for p in related_projects if p["attributes"]["test_surface"] != "cli"}\<close>;
  the set is represented by the list of its elements.
\<close>

fun scm_org_ids :: "json list \<Rightarrow> error + json list" where
  "scm_org_ids [] = Inr []"
| "scm_org_ids (p # ps) =
     bind_err (py_getitem p ''attributes'') (\<lambda>a.
     bind_err (py_getitem a ''test_surface'') (\<lambda>ts.
       if ts \<noteq> JStr ''cli'' then
         bind_err (py_getitem p ''attributes'') (\<lambda>a'.
         bind_err (py_getitem a' ''organization_id'') (\<lambda>oid.
           if \<not> hashable oid then Inl TypeError
           else bind_err (scm_org_ids ps) (\<lambda>ids. Inr (oid # ids))))
       else scm_org_ids ps))"

text \<open>\<^verbatim>\<open>[o for o in repo_orgs if o.id in scm_org_ids]\<close>\<close>

fun scm_orgs :: "json list \<Rightarrow> organization list \<Rightarrow> error + organization list" where
  "scm_orgs ids [] = Inr []"
| "scm_orgs ids (org # orgs) =
     (if \<not> hashable (org_id org) then Inl TypeError
      else bind_err (scm_orgs ids orgs) (\<lambda>rest.
             Inr (if list_ex (py_eq (org_id org)) ids then org # rest else rest)))"

text \<open>\<^verbatim>\<open>repo_orgs\<close> of the matched asset\<close>

definition repo_orgs :: "json \<Rightarrow> error + organization list" where
  "repo_orgs repo_asset =
     bind_err (py_getitem repo_asset ''relationships'') (\<lambda>rel.
     bind_err (py_get rel ''organization'' (JObj [])) (\<lambda>org.
     bind_err (py_get org ''data'' (JArr [])) (\<lambda>d.
     bind_err (py_iter d) organizations)))"

text \<open>\<^verbatim>\<open>repo_asset["relationships"]["projects"]["links"]["related"]\<close>\<close>

definition project_link :: "json \<Rightarrow> error + json" where
  "project_link repo_asset =
     bind_err (py_getitem repo_asset ''relationships'') (\<lambda>rel.
     bind_err (py_getitem rel ''projects'') (\<lambda>pr.
     bind_err (py_getitem pr ''links'') (\<lambda>l.
     py_getitem l ''related'')))"

text \<open>
  The body of \<^verbatim>\<open>fetch_organizations\<close> after the call of \<^verbatim>\<open>fetch_repo_data\<close>
  (lines 209 to 234), given the value \<^verbatim>\<open>assets\<close> that call returned. The result
  \<open>None\<close> of the Python function is \<open>Inr None\<close>.
\<close>

definition organizations_of_assets ::
  "nat \<Rightarrow> pylib \<Rightarrow> server \<Rightarrow> json \<Rightarrow> world \<Rightarrow> ((error + organization list option) \<times> world) option" where
  "organizations_of_assets fuel lib srv assets w =
     (if \<not> py_truthy assets then Some (Inr None, w)
      else
        (case py_len assets of
           Inl e \<Rightarrow> Some (Inl e, w)
         | Inr n \<Rightarrow>
             if n > 1 then
               Some (Inl (ValueError (str_nat n @ '' matches found. Please narrow your search.'')), w)
             else
               (case py_first assets of
                  Inl e \<Rightarrow> Some (Inl e, w)
                | Inr repo_asset \<Rightarrow>
                    (case repo_orgs repo_asset of
                       Inl e \<Rightarrow> Some (Inl e, w)
                     | Inr orgs \<Rightarrow>
                         if orgs = [] then Some (Inr (Some []), w)
                         else
                           (case project_link repo_asset of
                              Inl e \<Rightarrow> Some (Inl e, w)
                            | Inr link \<Rightarrow>
                                (case get_data fuel srv
                                        (add_url_params lib (''https://api.snyk.io'' @ py_str lib link)
                                           [(''limit'', JNum 100)])
                                        [] 5 w of
                                   None \<Rightarrow> None
                                 | Some (Inl e, w') \<Rightarrow> Some (Inl e, w')
                                 | Some (Inr related_projects, w') \<Rightarrow>
                                     Some (bind_err (scm_org_ids related_projects) (\<lambda>ids.
                                           bind_err (scm_orgs ids orgs) (\<lambda>os. Inr (Some os))),
                                           w')))))))"

definition fetch_organizations ::
  "nat \<Rightarrow> pylib \<Rightarrow> server \<Rightarrow> string \<Rightarrow> string \<Rightarrow> world \<Rightarrow>
     ((error + organization list option) \<times> world) option" where
  "fetch_organizations fuel lib srv repo group_id w =
     (case fetch_repo_data fuel srv repo group_id 5 w of
        None \<Rightarrow> None
      | Some (Inl e, w') \<Rightarrow> Some (Inl e, w')
      | Some (Inr assets, w') \<Rightarrow> organizations_of_assets fuel lib srv assets w')"

section \<open>The command line: \<^verbatim>\<open>main\<close>\<close>

record arguments =
  group_id :: string
  target_name :: string
  allow_fallback :: bool

datatype exit = Returned | SystemExit nat

definition DEFAULT_ORG :: string where
  "DEFAULT_ORG = []"

definition print :: "string \<Rightarrow> world \<Rightarrow> world" where
  "print s w = w\<lparr>printed := printed w @ [s]\<rparr>"

text \<open>the part of \<^verbatim>\<open>main\<close> after \<^verbatim>\<open>found\<close> is known to be a non-empty list\<close>

definition select_org :: "pylib \<Rightarrow> arguments \<Rightarrow> organization list \<Rightarrow> world \<Rightarrow> (error + exit) \<times> world" where
  "select_org lib args found w =
     (let w1 = (if length found > 1
                then log_msg WARNING (LStr ''%s orgs found.'') [LNat (length found)] w else w)
      in if length found > 1 \<and> \<not> allow_fallback args then (Inr (SystemExit 1), w1)
         else
           (let w2 = fold (\<lambda>org. log_msg INFO (LJson (org_name org)) []) found w1
            in case get_best_org found of
                 Inl e \<Rightarrow> (Inl e, w2)
               | Inr selected \<Rightarrow> (Inr Returned, print (py_str lib (org_id selected)) w2)))"

text \<open>the branch \<^verbatim>\<open>if not found:\<close>, taken for \<^verbatim>\<open>None\<close> and for the empty list alike\<close>

definition not_found :: "arguments \<Rightarrow> world \<Rightarrow> (error + exit) \<times> world" where
  "not_found args w =
     (let w1 = log_msg ERROR (LStr ''REPO NOT FOUND: %s'') [LStr (target_name args)] w
      in if \<not> allow_fallback args then (Inr (SystemExit 1), w1)
         else (Inr (SystemExit 0),
               print DEFAULT_ORG (log_msg INFO (LStr ''Using default org.'') [] w1)))"

definition main ::
  "nat \<Rightarrow> pylib \<Rightarrow> server \<Rightarrow> string list \<Rightarrow> arguments \<Rightarrow> world \<Rightarrow> ((error + exit) \<times> world) option" where
  "main fuel lib srv token_list args w =
     (case fetch_organizations fuel lib srv (target_name args) (group_id args)
             (w\<lparr>cm := new_manager token_list\<rparr>) of
        None \<Rightarrow> None
      | Some (Inl e, w') \<Rightarrow> Some (Inl e, w')
      | Some (Inr found, w') \<Rightarrow>
          (case found of
             None \<Rightarrow> Some (not_found args w')
           | Some [] \<Rightarrow> Some (not_found args w')
           | Some (org # orgs) \<Rightarrow> Some (select_org lib args (org # orgs) w')))"

section \<open>Notions of the specification\<close>

text \<open>
  A name contains \<open>sub\<close> case-insensitively when some segment of it is \<open>sub\<close> once
  lowered. An organization is excluded by the tie-break when its name is a string that
  contains \<^verbatim>\<open>unassigned\<close> or \<^verbatim>\<open>default\<close> in that sense, acceptable when its name is a
  string that contains neither.
\<close>

definition contains_ci :: "string \<Rightarrow> string \<Rightarrow> bool" where
  "contains_ci sub s = (\<exists>pre w post. s = pre @ w @ post \<and> lower w = sub)"

definition excluded :: "organization \<Rightarrow> bool" where
  "excluded org =
     (case org_name org of
        JStr n \<Rightarrow> contains_ci ''unassigned'' n \<or> contains_ci ''default'' n
      | _ \<Rightarrow> False)"

definition acceptable :: "organization \<Rightarrow> bool" where
  "acceptable org =
     (case org_name org of
        JStr n \<Rightarrow> \<not> contains_ci ''unassigned'' n \<and> \<not> contains_ci ''default'' n
      | _ \<Rightarrow> False)"

text \<open>
  An organization whose identifier and name are the same string, for examples.
\<close>

definition org_named :: "string \<Rightarrow> organization" where
  "org_named n = \<lparr>org_id = JStr n, org_name = JStr n\<rparr>"

text \<open>
  The request that the \<open>i\<close>-th iteration of the loop of \<^verbatim>\<open>get\<close> sends for URL \<open>u\<close> and
  parameters \<open>ps\<close>, when the loop is entered with token manager \<open>m\<close>.
\<close>

definition get_request :: "string \<Rightarrow> (string \<times> json) list option \<Rightarrow> SnykTokenManager \<Rightarrow> nat \<Rightarrow> request" where
  "get_request u ps m i =
     \<lparr>req_method = GET, req_url = u,
      req_headers = auth_headers (tokens m ! ((idx m + i) mod length (tokens m))),
      req_params = ps, req_json = None, req_timeout = 60\<rparr>"

text \<open>
  The world at process start for a given token pool, and three platforms for examples:
  one that rate-limits the first two requests, one that rate-limits every request, one
  that never does.
\<close>

definition init_world :: "string list \<Rightarrow> world" where
  "init_world toks = \<lparr>cm = new_manager toks, sent = [], slept = [], logged = [], printed = []\<rparr>"

definition flaky_server :: server where
  "flaky_server k req = \<lparr>status_code = (if k < 2 then 429 else 200), payload = Some (JObj [])\<rparr>"

definition limited_server :: server where
  "limited_server k req = \<lparr>status_code = 429, payload = None\<rparr>"

definition ok_server :: server where
  "ok_server k req = \<lparr>status_code = 200, payload = Some (JObj [])\<rparr>"

text \<open>
  The caller's query parameters completed with the defaults \<^verbatim>\<open>version\<close> and
  \<^verbatim>\<open>limit\<close> where the caller gave none.
\<close>

definition default_params :: "(string \<times> json) list \<Rightarrow> (string \<times> json) list" where
  "default_params ps =
     ps @ (if ''version'' \<in> fst ` set ps then [] else [(''version'', JStr ''2024-10-15'')])
        @ (if ''limit'' \<in> fst ` set ps then [] else [(''limit'', JNum 100)])"

text \<open>
  A page of the platform is a JSON object whose \<^verbatim>\<open>data\<close>, when present, is an array and
  whose \<^verbatim>\<open>links\<close>, when present, is an object whose \<^verbatim>\<open>next\<close>, when present, is null or a
  string. Its items are the entries of \<^verbatim>\<open>data\<close> (none when the key is missing); its next
  link is the string under \<^verbatim>\<open>links.next\<close>. A chain of pages is a non-empty list of pages in
  which every page but the last has a non-empty next link and the last has none. A
  platform serves a list of bodies from request number \<open>n\<close> on when it answers the
  \<open>k\<close>-th request after \<open>n\<close> with the \<open>k\<close>-th body and a status other than 429.
\<close>

fun is_page :: "json \<Rightarrow> bool" where
  "is_page (JObj kvs) =
     ((case map_of kvs ''data'' of None \<Rightarrow> True | Some (JArr xs) \<Rightarrow> True | Some _ \<Rightarrow> False)
      \<and> (case map_of kvs ''links'' of
            None \<Rightarrow> True
          | Some (JObj ls) \<Rightarrow>
              (case map_of ls ''next'' of
                 None \<Rightarrow> True
               | Some JNull \<Rightarrow> True
               | Some (JStr n) \<Rightarrow> True
               | Some _ \<Rightarrow> False)
          | Some _ \<Rightarrow> False))"
| "is_page _ = False"

fun page_items :: "json \<Rightarrow> json list" where
  "page_items (JObj kvs) = (case map_of kvs ''data'' of Some (JArr xs) \<Rightarrow> xs | _ \<Rightarrow> [])"
| "page_items _ = []"

fun lacks_data :: "json \<Rightarrow> bool" where
  "lacks_data (JObj kvs) = (map_of kvs ''data'' = None)"
| "lacks_data _ = True"

fun page_next :: "json \<Rightarrow> string option" where
  "page_next (JObj kvs) =
     (case map_of kvs ''links'' of
        Some (JObj ls) \<Rightarrow> (case map_of ls ''next'' of Some (JStr n) \<Rightarrow> Some n | _ \<Rightarrow> None)
      | _ \<Rightarrow> None)"
| "page_next _ = None"

definition absolute_url :: "string \<Rightarrow> string" where
  "absolute_url n = (if prefix ''https://'' n then n else ''https://api.snyk.io'' @ n)"

fun page_chain :: "json list \<Rightarrow> bool" where
  "page_chain [] = False"
| "page_chain [b] = (is_page b \<and> page_next b = None)"
| "page_chain (b # b' # bs) =
     (is_page b \<and> (case page_next b of None \<Rightarrow> False | Some n \<Rightarrow> n \<noteq> []) \<and> page_chain (b' # bs))"

definition serves :: "server \<Rightarrow> nat \<Rightarrow> json list \<Rightarrow> bool" where
  "serves srv n bodies =
     (\<forall>k < length bodies. \<forall>req.
        status_code (srv (n + k) req) \<noteq> 429 \<and> payload (srv (n + k) req) = Some (bodies ! k))"

text \<open>
  Three pages for examples: the second has no \<^verbatim>\<open>data\<close>, the first links to the second
  by a relative URL.
\<close>

definition three_pages :: "json list" where
  "three_pages =
     [JObj [(''data'', JArr [JNum 1, JNum 2]), (''links'', JObj [(''next'', JStr ''/rest/p2'')])],
      JObj [(''errors'', JArr []), (''links'', JObj [(''next'', JStr ''https://api.snyk.io/rest/p3'')])],
      JObj [(''data'', JArr [JNum 3]), (''links'', JObj [])]]"

definition pages_server :: "json list \<Rightarrow> server" where
  "pages_server bodies k req =
     \<lparr>status_code = 200, payload = (if k < length bodies then Some (bodies ! k) else None)\<rparr>"

text \<open>
  JSON of an organization, of a repository asset with given organizations, and of a
  project with its owner and test surface, as the platform returns them; an asset with
  organizations A and B, and three projects of which only one, owned by A, has a test
  surface other than \<^verbatim>\<open>cli\<close>.
\<close>

definition org_json :: "string \<Rightarrow> string \<Rightarrow> json" where
  "org_json i n = JObj [(''id'', JStr i), (''attributes'', JObj [(''name'', JStr n)])]"

definition asset_json :: "json list \<Rightarrow> json" where
  "asset_json orgs =
     JObj [(''id'', JStr ''asset-1''),
           (''relationships'',
              JObj [(''organization'', JObj [(''data'', JArr orgs)]),
                    (''projects'',
                       JObj [(''links'',
                          JObj [(''related'', JStr ''/rest/groups/g/assets/asset-1/relationships/projects'')])])])]"

definition project_json :: "string \<Rightarrow> string \<Rightarrow> json" where
  "project_json owner surface =
     JObj [(''attributes'', JObj [(''organization_id'', JStr owner), (''test_surface'', JStr surface)])]"

definition asset_AB :: json where
  "asset_AB = asset_json [org_json ''A'' ''Org A'', org_json ''B'' ''Org B'']"

definition projects_AB :: "json list" where
  "projects_AB = [project_json ''A'' ''github'', project_json ''A'' ''cli'', project_json ''B'' ''cli'']"

text \<open>
  A platform that is never rate limited: it answers the asset search with status 200 and
  the given matches, and every GET with status 200 and one page of the given projects.
\<close>

definition resolver_server :: "json \<Rightarrow> json list \<Rightarrow> server" where
  "resolver_server assets projects k req =
     (case req_method req of
        POST \<Rightarrow> \<lparr>status_code = 200, payload = Some (JObj [(''data'', assets)])\<rparr>
      | GET \<Rightarrow> \<lparr>status_code = 200, payload = Some (JObj [(''data'', JArr projects)])\<rparr>)"

text \<open>
  What the specification says of a related project: the JSON value of one of its
  attributes, and whether some project of a list is owned by a given organization and has
  a test surface other than \<^verbatim>\<open>cli\<close>.
\<close>

definition project_attr :: "json \<Rightarrow> string \<Rightarrow> json option" where
  "project_attr p k =
     (case p of
        JObj kvs \<Rightarrow> (case map_of kvs ''attributes'' of Some (JObj as) \<Rightarrow> map_of as k | _ \<Rightarrow> None)
      | _ \<Rightarrow> None)"

definition is_project :: "json \<Rightarrow> bool" where
  "is_project p =
     ((case project_attr p ''organization_id'' of Some (JStr i) \<Rightarrow> True | _ \<Rightarrow> False)
      \<and> project_attr p ''test_surface'' \<noteq> None)"

definition owns_scm_project :: "json list \<Rightarrow> json \<Rightarrow> bool" where
  "owns_scm_project projects i =
     list_ex (\<lambda>p. project_attr p ''organization_id'' = Some i
                 \<and> project_attr p ''test_surface'' \<noteq> Some (JStr ''cli'')) projects"

definition has_string_id :: "organization \<Rightarrow> bool" where
  "has_string_id org = (case org_id org of JStr i \<Rightarrow> True | _ \<Rightarrow> False)"

section \<open>Token rotation\<close>

lemma next_tokens_eq:
  "tokens m \<noteq> [] \<Longrightarrow>
   next_tokens n m =
     Inr (map (\<lambda>i. tokens m ! ((idx m + i) mod length (tokens m))) [0..<n], m\<lparr>idx := idx m + n\<rparr>)"
proof (induction n arbitrary: m)
  case 0
  then show ?case by simp
next
  case (Suc n)
  let ?m' = "m\<lparr>idx := idx m + 1\<rparr>"
  have nt: "next_token m = Inr (tokens m ! (idx m mod length (tokens m)), ?m')"
    using Suc.prems by (simp add: next_token_def)
  have ih: "next_tokens n ?m' =
     Inr (map (\<lambda>i. tokens m ! ((idx m + 1 + i) mod length (tokens m))) [0..<n], m\<lparr>idx := idx m + 1 + n\<rparr>)"
    using Suc.IH [of ?m'] Suc.prems by simp
  have "map (\<lambda>i. tokens m ! ((idx m + i) mod length (tokens m))) [0..<Suc n]
      = tokens m ! (idx m mod length (tokens m)) # map (\<lambda>i. tokens m ! ((idx m + 1 + i) mod length (tokens m))) [0..<n]"
    by (simp add: upt_conv_Cons map_Suc_upt [symmetric] del: upt_Suc)
  then show ?case using nt ih by simp
qed

text \<open>
  Claim C8. On a non-empty pool of size \<open>N\<close>, any number of successive calls of
  \<^verbatim>\<open>next_token\<close> all succeed, each advances the cursor by one, the call at position
  \<open>i\<close> returns the token at index \<open>(idx + i) mod N\<close>, and so the calls at positions
  \<open>i\<close> and \<open>i + N\<close> return the same token.
\<close>

theorem next_token_round_robin:
  assumes "tokens m \<noteq> []"
  shows "\<exists>ts m'. next_tokens n m = Inr (ts, m') \<and> length ts = n
           \<and> idx m' = idx m + n \<and> tokens m' = tokens m
           \<and> (\<forall>i. i + length (tokens m) < n \<longrightarrow> ts ! i = ts ! (i + length (tokens m)))
           \<and> (\<forall>i < n. ts ! i = tokens m ! ((idx m + i) mod length (tokens m)))"
proof -
  let ?N = "length (tokens m)"
  let ?ts = "map (\<lambda>i. tokens m ! ((idx m + i) mod ?N)) [0..<n]"
  have eq: "next_tokens n m = Inr (?ts, m\<lparr>idx := idx m + n\<rparr>)"
    using assms by (rule next_tokens_eq)
  have rr: "\<forall>i. i + ?N < n \<longrightarrow> ?ts ! i = ?ts ! (i + ?N)"
  proof (intro allI impI)
    fix i assume h: "i + ?N < n"
    have "(idx m + (i + ?N)) mod ?N = (idx m + i) mod ?N"
      by (simp add: add.assoc [symmetric])
    with h show "?ts ! i = ?ts ! (i + ?N)" by simp
  qed
  have pos: "\<forall>i < n. ?ts ! i = tokens m ! ((idx m + i) mod ?N)"
    by simp
  show ?thesis using eq rr pos by simp
qed

theorem next_token_round_robin_witness:
  "tokens (new_manager [''a'', ''b'', ''c'']) \<noteq> []
   \<and> (\<exists>ts m'. next_tokens 7 (new_manager [''a'', ''b'', ''c'']) = Inr (ts, m') \<and> length ts = 7
           \<and> idx m' = idx (new_manager [''a'', ''b'', ''c'']) + 7
           \<and> tokens m' = tokens (new_manager [''a'', ''b'', ''c''])
           \<and> (\<forall>i. i + length (tokens (new_manager [''a'', ''b'', ''c''])) < 7 \<longrightarrow>
                  ts ! i = ts ! (i + length (tokens (new_manager [''a'', ''b'', ''c'']))))
           \<and> (\<forall>i < 7. ts ! i = tokens (new_manager [''a'', ''b'', ''c'']) !
                  ((idx (new_manager [''a'', ''b'', ''c'']) + i)
                     mod length (tokens (new_manager [''a'', ''b'', ''c''])))))"
proof -
  have h: "tokens (new_manager [''a'', ''b'', ''c'']) \<noteq> []"
    by (simp add: new_manager_def)
  show ?thesis
    using h next_token_round_robin [OF h, of 7] by (rule conjI)
qed

section \<open>Tie-break\<close>

lemma str_in_iff: "str_in sub s \<longleftrightarrow> (\<exists>pre post. s = pre @ sub @ post)"
proof (induction s)
  case Nil
  then show ?case by auto
next
  case (Cons c cs)
  show ?case
  proof
    assume "str_in sub (c # cs)"
    then consider "prefix sub (c # cs)" | "str_in sub cs" by auto
    then show "\<exists>pre post. c # cs = pre @ sub @ post"
    proof cases
      case 1
      then obtain zs where "c # cs = sub @ zs" by (auto simp: prefix_def)
      then have "c # cs = [] @ sub @ zs" by simp
      then show ?thesis by blast
    next
      case 2
      then obtain pre post where "cs = pre @ sub @ post" using Cons.IH by blast
      then have "c # cs = (c # pre) @ sub @ post" by simp
      then show ?thesis by blast
    qed
  next
    assume "\<exists>pre post. c # cs = pre @ sub @ post"
    then obtain pre post where e: "c # cs = pre @ sub @ post" by blast
    show "str_in sub (c # cs)"
    proof (cases pre)
      case Nil
      then have "prefix sub (c # cs)" using e by (simp add: prefix_def)
      then show ?thesis by simp
    next
      case (Cons a pre')
      then have "cs = pre' @ sub @ post" using e by simp
      then have "str_in sub cs" using Cons.IH by blast
      then show ?thesis by simp
    qed
  qed
qed

lemma contains_ci_iff: "contains_ci sub s \<longleftrightarrow> str_in sub (lower s)"
proof
  assume "contains_ci sub s"
  then obtain pre w post where "s = pre @ w @ post" "lower w = sub"
    by (auto simp: contains_ci_def)
  then have "lower s = lower pre @ sub @ lower post" by (simp add: lower_def)
  then show "str_in sub (lower s)" unfolding str_in_iff by blast
next
  assume "str_in sub (lower s)"
  then obtain pre post where "map lower_char s = pre @ sub @ post"
    unfolding str_in_iff lower_def by blast
  then have "\<exists>us vs. s = us @ vs \<and> pre = map lower_char us \<and> sub @ post = map lower_char vs"
    by (simp only: map_eq_append_conv)
  then obtain a vs where a: "s = a @ vs" and vs: "sub @ post = map lower_char vs"
    by blast
  from vs have "\<exists>us ws. vs = us @ ws \<and> sub = map lower_char us \<and> post = map lower_char ws"
    by (simp only: append_eq_map_conv)
  then obtain b c where "vs = b @ c" "sub = map lower_char b"
    by blast
  with a have "s = a @ b @ c" "map lower_char b = sub" by simp_all
  then show "contains_ci sub s" by (auto simp: contains_ci_def lower_def)
qed

lemma first_acceptable_excluded:
  "\<forall>p \<in> set pre. excluded p \<Longrightarrow> first_acceptable (pre @ rest) = first_acceptable rest"
proof (induction pre)
  case Nil
  then show ?case by simp
next
  case (Cons p pre)
  then have "excluded p" by simp
  then obtain n where n: "org_name p = JStr n"
    and ex: "str_in ''unassigned'' (lower n) \<or> str_in ''default'' (lower n)"
    by (auto simp: excluded_def contains_ci_iff split: json.splits)
  have "first_acceptable ((p # pre) @ rest) = first_acceptable (pre @ rest)"
    using n ex by auto
  then show ?case using Cons by simp
qed

lemma first_acceptable_hit:
  "acceptable org \<Longrightarrow> first_acceptable (org # post) = Inr (Some org)"
  by (auto simp: acceptable_def contains_ci_iff split: json.splits)

text \<open>
  Claim C3. \<^verbatim>\<open>get_best_org\<close> fails with the \<^verbatim>\<open>ValueError\<close> for empty input on the
  empty list; it returns the first organization whose name contains, case-insensitively,
  neither \<^verbatim>\<open>unassigned\<close> nor \<^verbatim>\<open>default\<close>, whatever follows it; and when every
  organization of a non-empty list is excluded it returns the first of the list.
\<close>

theorem get_best_org_first_acceptable:
  "get_best_org [] = Inl (ValueError ''orgs cannot be empty.'')
   \<and> ((\<forall>p \<in> set pre. excluded p) \<and> acceptable org \<longrightarrow> get_best_org (pre @ org # post) = Inr org)
   \<and> (orgs \<noteq> [] \<and> (\<forall>p \<in> set orgs. excluded p) \<longrightarrow> get_best_org orgs = Inr (hd orgs))"
proof (intro conjI impI)
  show "get_best_org [] = Inl (ValueError ''orgs cannot be empty.'')"
    by (simp add: get_best_org_def)
next
  assume h: "(\<forall>p \<in> set pre. excluded p) \<and> acceptable org"
  then have "first_acceptable (pre @ org # post) = first_acceptable (org # post)"
    by (intro first_acceptable_excluded) simp
  moreover have "first_acceptable (org # post) = Inr (Some org)"
    using h by (intro first_acceptable_hit) simp
  ultimately have "first_acceptable (pre @ org # post) = Inr (Some org)"
    by simp
  then show "get_best_org (pre @ org # post) = Inr org"
    by (cases pre) (simp_all add: get_best_org_def)
next
  assume h: "orgs \<noteq> [] \<and> (\<forall>p \<in> set orgs. excluded p)"
  then have "first_acceptable (orgs @ []) = first_acceptable []"
    by (intro first_acceptable_excluded) simp
  then have "first_acceptable orgs = Inr None" by simp
  then show "get_best_org orgs = Inr (hd orgs)"
    using h by (cases orgs) (simp_all add: get_best_org_def)
qed

theorem get_best_org_first_acceptable_witness:
  "excluded (org_named ''default org'') \<and> acceptable (org_named ''Acme'')
   \<and> get_best_org [org_named ''default org'', org_named ''Acme''] = Inr (org_named ''Acme'')
   \<and> excluded (org_named ''Unassigned'')
   \<and> get_best_org [org_named ''Unassigned''] = Inr (org_named ''Unassigned'')"
proof -
  have a: "excluded (org_named ''default org'')" "acceptable (org_named ''Acme'')"
    by (simp_all add: excluded_def acceptable_def org_named_def contains_ci_iff lower_def lower_char_def)
  have b: "excluded (org_named ''Unassigned'')"
    by (simp add: excluded_def org_named_def contains_ci_iff lower_def lower_char_def)
  show ?thesis
    using a b
      get_best_org_first_acceptable [of "[org_named ''default org'']" "org_named ''Acme''" "[]"
        "[org_named ''Unassigned'']"]
    by simp
qed

section \<open>Repository URL\<close>

lemma replace_no_occurrence:
  "old \<noteq> [] \<Longrightarrow> \<not> str_in old s \<Longrightarrow> replace old new s = s"
  by (induction s) auto

lemma str_in_has_colon:
  "str_in ''https://www.'' s \<Longrightarrow> CHR '':'' \<in> set s"
proof (induction s)
  case Nil
  then show ?case by simp
next
  case (Cons c cs)
  then consider "prefix ''https://www.'' (c # cs)" | "str_in ''https://www.'' cs" by auto
  then show ?case
  proof cases
    case 1
    then obtain zs where "c # cs = ''https://www.'' @ zs" by (auto simp: prefix_def)
    then have "set (c # cs) = set (''https://www.'' @ zs)" by simp
    then show ?thesis by (simp del: set_simps(2)) auto
  next
    case 2
    then show ?thesis using Cons.IH by simp
  qed
qed

text \<open>
Claim C7. \<^verbatim>\<open>_build_repo_url\<close> on the four inputs of the specification, for any
  fallback owner and for the default one; and in general: a name without \<^verbatim>\<open>/\<close> gets
  the fallback owner prepended, a leading \<^verbatim>\<open>www.\<close> after \<^verbatim>\<open>https://\<close> is stripped, and a
  URL that starts with \<^verbatim>\<open>https://\<close> and has no \<^verbatim>\<open>https://www.\<close> in it, a canonical
  GitHub URL in particular, is returned unchanged.
\<close>

theorem build_repo_url_normalizes:
  "build_repo_url ''owner/repo'' fb = ''https://github.com/owner/repo''
   \<and> build_repo_url ''repo'' fb = ''https://github.com/'' @ fb @ ''/repo''
   \<and> build_repo_url ''repo'' default_fallback_org = ''https://github.com/vasukotha2/repo''
   \<and> build_repo_url ''https://www.github.com/o/r'' fb = ''https://github.com/o/r''
   \<and> build_repo_url ''https://github.com/o/r'' fb = ''https://github.com/o/r''
   \<and> (CHR ''/'' \<notin> set r \<longrightarrow> build_repo_url r fb = ''https://github.com/'' @ fb @ ''/'' @ r)
   \<and> (CHR '':'' \<notin> set t \<longrightarrow> build_repo_url (''https://www.'' @ t) fb = ''https://'' @ t)
   \<and> (prefix ''https://'' u \<and> \<not> str_in ''https://www.'' u \<longrightarrow> build_repo_url u fb = u)
   \<and> (CHR '':'' \<notin> set ow \<and> CHR '':'' \<notin> set rp \<longrightarrow>
        build_repo_url (''https://github.com/'' @ ow @ ''/'' @ rp) fb
          = ''https://github.com/'' @ ow @ ''/'' @ rp)"
proof (intro conjI impI)
  show "build_repo_url ''owner/repo'' fb = ''https://github.com/owner/repo''"
    by (simp add: build_repo_url_def)
  show "build_repo_url ''repo'' fb = ''https://github.com/'' @ fb @ ''/repo''"
    by (simp add: build_repo_url_def)
  show "build_repo_url ''repo'' default_fallback_org = ''https://github.com/vasukotha2/repo''"
    by (simp add: build_repo_url_def default_fallback_org_def)
  show "build_repo_url ''https://www.github.com/o/r'' fb = ''https://github.com/o/r''"
    by (simp add: build_repo_url_def)
  show "build_repo_url ''https://github.com/o/r'' fb = ''https://github.com/o/r''"
    by (simp add: build_repo_url_def)
next
  assume "CHR ''/'' \<notin> set r"
  then have "\<not> prefix ''https://'' r" by (auto simp: prefix_def)
  with \<open>CHR ''/'' \<notin> set r\<close>
  show "build_repo_url r fb = ''https://github.com/'' @ fb @ ''/'' @ r"
    by (simp add: build_repo_url_def)
next
  assume c: "CHR '':'' \<notin> set t"
  then have "\<not> str_in ''https://www.'' t" using str_in_has_colon by blast
  then have "replace ''https://www.'' ''https://'' t = t"
    by (intro replace_no_occurrence) simp_all
  then show "build_repo_url (''https://www.'' @ t) fb = ''https://'' @ t"
    by (simp add: build_repo_url_def)
next
  assume "prefix ''https://'' u \<and> \<not> str_in ''https://www.'' u"
  then show "build_repo_url u fb = u"
    by (simp add: build_repo_url_def replace_no_occurrence)
next
  assume c: "CHR '':'' \<notin> set ow \<and> CHR '':'' \<notin> set rp"
  then have "CHR '':'' \<notin> set (ow @ ''/'' @ rp)" by simp
  then have n: "\<not> str_in ''https://www.'' (ow @ ''/'' @ rp)" using str_in_has_colon by blast
  have "\<not> str_in ''https://www.'' (''https://github.com/'' @ ow @ ''/'' @ rp)"
    using n by simp
  then have "replace ''https://www.'' ''https://'' (''https://github.com/'' @ ow @ ''/'' @ rp)
      = ''https://github.com/'' @ ow @ ''/'' @ rp"
    by (intro replace_no_occurrence) simp_all
  then show "build_repo_url (''https://github.com/'' @ ow @ ''/'' @ rp) fb
          = ''https://github.com/'' @ ow @ ''/'' @ rp"
    by (simp add: build_repo_url_def)
qed

theorem build_repo_url_normalizes_witness:
  "CHR ''/'' \<notin> set ''repo''
   \<and> build_repo_url ''repo'' ''acme'' = ''https://github.com/acme/repo''
   \<and> CHR '':'' \<notin> set ''github.com/o/r''
   \<and> build_repo_url ''https://www.github.com/o/r'' ''acme'' = ''https://github.com/o/r''
   \<and> prefix ''https://'' ''https://gitlab.com/o/r'' \<and> \<not> str_in ''https://www.'' ''https://gitlab.com/o/r''
   \<and> build_repo_url ''https://gitlab.com/o/r'' ''acme'' = ''https://gitlab.com/o/r''
   \<and> CHR '':'' \<notin> set ''o'' \<and> CHR '':'' \<notin> set ''r''
   \<and> build_repo_url ''https://github.com/o/r'' ''acme'' = ''https://github.com/o/r''"
  using build_repo_url_normalizes [of "''acme''" "''repo''" "''github.com/o/r''"
      "''https://gitlab.com/o/r''" "''o''" "''r''"]
  by simp

section \<open>The GET fetcher\<close>

lemma get_loop_rate_limited:
  assumes "tokens (cm w) \<noteq> []"
    and "\<forall>j < k. \<forall>req. status_code (srv (length (sent w) + j) req) = 429"
    and "\<forall>j < k. attempt + int j \<noteq> max_attempts"
  shows "\<exists>w'. get_loop (k + fuel) srv u ps max_attempts backoff attempt w
              = get_loop fuel srv u ps max_attempts (backoff * 2 ^ k) (attempt + int k) w'
           \<and> sent w' = sent w @ map (get_request u ps (cm w)) [0..<k]
           \<and> slept w' = slept w @ map (\<lambda>j. backoff * 2 ^ j) [0..<k]
           \<and> tokens (cm w') = tokens (cm w)
           \<and> idx (cm w') = idx (cm w) + k
           \<and> printed w' = printed w"
  using assms
proof (induction k arbitrary: w backoff attempt)
  case 0
  show ?case by (rule exI [of _ w]) simp
next
  case (Suc k)
  let ?m = "cm w"
  let ?req = "get_request u ps ?m 0"
  let ?w1 = "sleep backoff (log_msg WARNING (LStr ''Rate-limited. Retrying in %s'') [LNat backoff]
               (w\<lparr>cm := ?m\<lparr>idx := idx ?m + 1\<rparr>, sent := sent w @ [?req]\<rparr>))"
  have s0: "status_code (srv (length (sent w)) ?req) = 429"
    using Suc.prems(2) by (metis add.right_neutral zero_less_Suc)
  have a0: "attempt \<noteq> max_attempts"
    using Suc.prems(3) by (metis add.right_neutral of_nat_0 zero_less_Suc)
  have step: "get_loop (Suc k + fuel) srv u ps max_attempts backoff attempt w
      = get_loop (k + fuel) srv u ps max_attempts (backoff * 2) (attempt + 1) ?w1"
    using Suc.prems(1) s0 a0
    by (simp add: next_token_def http_send_def get_request_def)
  have t1: "tokens (cm ?w1) \<noteq> []"
    using Suc.prems(1) by (simp add: sleep_def log_msg_def)
  have len1: "length (sent ?w1) = Suc (length (sent w))"
    by (simp add: sleep_def log_msg_def)
  have s1: "\<forall>j < k. \<forall>req. status_code (srv (length (sent ?w1) + j) req) = 429"
  proof (intro allI impI)
    fix j req assume "j < k"
    then have "Suc j < Suc k" by simp
    then have "status_code (srv (length (sent w) + Suc j) req) = 429"
      using Suc.prems(2) by blast
    then show "status_code (srv (length (sent ?w1) + j) req) = 429"
      by (simp add: sleep_def log_msg_def)
  qed
  have a1: "\<forall>j < k. attempt + 1 + int j \<noteq> max_attempts"
  proof (intro allI impI)
    fix j assume "j < k"
    then have "Suc j < Suc k" by simp
    then have "attempt + int (Suc j) \<noteq> max_attempts" using Suc.prems(3) by blast
    then show "attempt + 1 + int j \<noteq> max_attempts" by simp
  qed
  from Suc.IH [OF t1 s1 a1, of "backoff * 2"]
  obtain w' where
    e: "get_loop (k + fuel) srv u ps max_attempts (backoff * 2) (attempt + 1) ?w1
          = get_loop fuel srv u ps max_attempts (backoff * 2 * 2 ^ k) (attempt + 1 + int k) w'"
    and se: "sent w' = sent ?w1 @ map (get_request u ps (cm ?w1)) [0..<k]"
    and sl: "slept w' = slept ?w1 @ map (\<lambda>j. backoff * 2 * 2 ^ j) [0..<k]"
    and tk: "tokens (cm w') = tokens (cm ?w1)"
    and ix: "idx (cm w') = idx (cm ?w1) + k"
    and pr: "printed w' = printed ?w1"
    by blast
  have req_shift: "map (get_request u ps (cm ?w1)) [0..<k] = map (get_request u ps ?m) [Suc 0..<Suc k]"
    by (simp add: map_Suc_upt [symmetric] get_request_def sleep_def log_msg_def del: upt_Suc)
  have sl_shift: "map (\<lambda>j. backoff * 2 * 2 ^ j) [0..<k] = map (\<lambda>j. backoff * 2 ^ j) [Suc 0..<Suc k]"
    by (simp add: map_Suc_upt [symmetric] del: upt_Suc)
  have "get_loop (Suc k + fuel) srv u ps max_attempts backoff attempt w
          = get_loop fuel srv u ps max_attempts (backoff * 2 ^ Suc k) (attempt + int (Suc k)) w'"
    using step e by (simp add: mult.assoc add.assoc)
  moreover have "sent w' = sent w @ map (get_request u ps ?m) [0..<Suc k]"
    using se req_shift by (simp add: sleep_def log_msg_def upt_conv_Cons del: upt_Suc)
  moreover have "slept w' = slept w @ map (\<lambda>j. backoff * 2 ^ j) [0..<Suc k]"
    using sl sl_shift by (simp add: sleep_def log_msg_def upt_conv_Cons del: upt_Suc)
  moreover have "tokens (cm w') = tokens ?m"
    using tk by (simp add: sleep_def log_msg_def)
  moreover have "idx (cm w') = idx ?m + Suc k"
    using ix by (simp add: sleep_def log_msg_def)
  moreover have "printed w' = printed w"
    using pr by (simp add: sleep_def log_msg_def)
  ultimately show ?case by blast
qed


lemma get_loop_success:
  assumes "tokens (cm w) \<noteq> []"
    and "status_code (srv (length (sent w)) (get_request u ps (cm w) 0)) \<noteq> 429"
  shows "get_loop (Suc fuel) srv u ps max_attempts backoff attempt w
           = Some (Inr (srv (length (sent w)) (get_request u ps (cm w) 0)),
                   w\<lparr>cm := (cm w)\<lparr>idx := idx (cm w) + 1\<rparr>,
                     sent := sent w @ [get_request u ps (cm w) 0]\<rparr>)"
  using assms by (simp add: next_token_def http_send_def get_request_def)

lemma get_loop_ceiling:
  assumes "tokens (cm w) \<noteq> []"
    and "status_code (srv (length (sent w)) (get_request u ps (cm w) 0)) = 429"
  shows "get_loop (Suc fuel) srv u ps max_attempts backoff max_attempts w
           = Some (Inl (ValueError ''Rate-limited. Max attempts exceeded.''),
                   w\<lparr>cm := (cm w)\<lparr>idx := idx (cm w) + 1\<rparr>,
                     sent := sent w @ [get_request u ps (cm w) 0]\<rparr>)"
  using assms by (simp add: next_token_def http_send_def get_request_def)

lemma get_twice_429_then_ok:
  assumes pool: "tokens (cm w) \<noteq> []"
    and r0: "\<forall>req. status_code (srv (length (sent w)) req) = 429"
    and r1: "\<forall>req. status_code (srv (length (sent w) + 1) req) = 429"
    and r2: "\<forall>req. status_code (srv (length (sent w) + 2) req) = 200"
    and ceil: "max_attempts \<noteq> 1" "max_attempts \<noteq> 2"
    and fuel: "3 \<le> fuel"
  shows "\<exists>w'. get fuel srv u ps max_attempts w
             = Some (Inr (srv (length (sent w) + 2) (get_request u (get_params u ps) (cm w) 2)), w')
          \<and> sent w' = sent w @ map (get_request u (get_params u ps) (cm w)) [0..<3]
          \<and> idx (cm w') = idx (cm w) + 3
          \<and> slept w' = slept w @ [2, 4]"
proof -
  let ?ps = "get_params u ps"
  define f where "f = fuel - 3"
  have f: "fuel = 2 + Suc f"
    using fuel by (simp add: f_def)
  have lim: "\<forall>j < 2. \<forall>req. status_code (srv (length (sent w) + j) req) = 429"
    using r0 r1 by (auto simp: less_Suc_eq numeral_2_eq_2)
  have att: "\<forall>j < 2. 1 + int j \<noteq> max_attempts"
    using ceil by (auto simp: less_Suc_eq numeral_2_eq_2)
  from get_loop_rate_limited [OF pool lim att, of "Suc f" u ?ps 2]
  obtain w1 where
    e: "get_loop (2 + Suc f) srv u ?ps max_attempts 2 1 w
          = get_loop (Suc f) srv u ?ps max_attempts (2 * 2 ^ 2) (1 + int 2) w1"
    and se: "sent w1 = sent w @ map (get_request u ?ps (cm w)) [0..<2]"
    and sl: "slept w1 = slept w @ map (\<lambda>j. 2 * 2 ^ j) [0..<2]"
    and tk: "tokens (cm w1) = tokens (cm w)"
    and ix: "idx (cm w1) = idx (cm w) + 2"
    by blast
  have len: "length (sent w1) = length (sent w) + 2" using se by simp
  have rq: "get_request u ?ps (cm w1) 0 = get_request u ?ps (cm w) 2"
    using tk ix by (simp add: get_request_def)
  have ok: "status_code (srv (length (sent w1)) (get_request u ?ps (cm w1) 0)) \<noteq> 429"
    using r2 len by simp
  have pool1: "tokens (cm w1) \<noteq> []" using tk pool by simp
  let ?w' = "w1\<lparr>cm := (cm w1)\<lparr>idx := idx (cm w1) + 1\<rparr>, sent := sent w1 @ [get_request u ?ps (cm w1) 0]\<rparr>"
  have "get fuel srv u ps max_attempts w
          = Some (Inr (srv (length (sent w) + 2) (get_request u ?ps (cm w) 2)), ?w')"
    unfolding get_def f e
    using get_loop_success [where w = w1 and srv = srv and u = u and ps = "?ps" and fuel = f
        and max_attempts = max_attempts and backoff = "2 * 2 ^ 2" and attempt = "1 + int 2"]
      pool1 ok len rq by simp
  moreover have "sent ?w' = sent w @ map (get_request u ?ps (cm w)) [0..<3]"
    using se rq by (simp add: numeral_3_eq_3 numeral_2_eq_2)
  moreover have "idx (cm ?w') = idx (cm w) + 3" using ix by simp
  moreover have "slept ?w' = slept w @ [2, 4]" using sl by (simp add: numeral_2_eq_2)
  ultimately show ?thesis by blast
qed

lemma get_always_429:
  assumes pool: "tokens (cm w) \<noteq> []"
    and lim: "\<forall>k req. status_code (srv k req) = 429"
    and ceil: "1 \<le> max_attempts"
    and fuel: "nat max_attempts \<le> fuel"
  shows "\<exists>w'. get fuel srv u ps max_attempts w
             = Some (Inl (ValueError ''Rate-limited. Max attempts exceeded.''), w')
          \<and> sent w' = sent w @ map (get_request u (get_params u ps) (cm w)) [0..<nat max_attempts]
          \<and> idx (cm w') = idx (cm w) + nat max_attempts
          \<and> slept w' = slept w @ map (\<lambda>j. 2 * 2 ^ j) [0..<nat max_attempts - 1]"
proof -
  let ?ps = "get_params u ps"
  let ?k = "nat max_attempts - 1"
  define f where "f = fuel - nat max_attempts"
  have f: "fuel = ?k + Suc f"
    using fuel ceil by (simp add: f_def)
  have l: "\<forall>j < ?k. \<forall>req. status_code (srv (length (sent w) + j) req) = 429"
    using lim by simp
  have att: "\<forall>j < ?k. 1 + int j \<noteq> max_attempts"
    using ceil by auto
  from get_loop_rate_limited [OF pool l att, of "Suc f" u ?ps 2]
  obtain w1 where
    e: "get_loop (?k + Suc f) srv u ?ps max_attempts 2 1 w
          = get_loop (Suc f) srv u ?ps max_attempts (2 * 2 ^ ?k) (1 + int ?k) w1"
    and se: "sent w1 = sent w @ map (get_request u ?ps (cm w)) [0..<?k]"
    and sl: "slept w1 = slept w @ map (\<lambda>j. 2 * 2 ^ j) [0..<?k]"
    and tk: "tokens (cm w1) = tokens (cm w)"
    and ix: "idx (cm w1) = idx (cm w) + ?k"
    by blast
  have at: "1 + int ?k = max_attempts" using ceil by simp
  have rq: "get_request u ?ps (cm w1) 0 = get_request u ?ps (cm w) ?k"
    using tk ix by (simp add: get_request_def)
  have hit: "status_code (srv (length (sent w1)) (get_request u ?ps (cm w1) 0)) = 429"
    using lim by simp
  have pool1: "tokens (cm w1) \<noteq> []" using tk pool by simp
  let ?w' = "w1\<lparr>cm := (cm w1)\<lparr>idx := idx (cm w1) + 1\<rparr>, sent := sent w1 @ [get_request u ?ps (cm w1) 0]\<rparr>"
  have sk: "Suc ?k = nat max_attempts" using ceil by simp
  have "get fuel srv u ps max_attempts w
          = get_loop (?k + Suc f) srv u ?ps max_attempts 2 1 w"
    by (simp only: get_def f)
  also have "\<dots> = get_loop (Suc f) srv u ?ps max_attempts (2 * 2 ^ ?k) max_attempts w1"
    using e by (simp only: at)
  also have "\<dots> = Some (Inl (ValueError ''Rate-limited. Max attempts exceeded.''), ?w')"
    using pool1 hit by (rule get_loop_ceiling)
  finally have "get fuel srv u ps max_attempts w
          = Some (Inl (ValueError ''Rate-limited. Max attempts exceeded.''), ?w')" .
  moreover have up: "[0..<nat max_attempts] = [0..<?k] @ [?k]"
    by (subst sk [symmetric]) simp
  moreover have "sent ?w' = sent w @ map (get_request u ?ps (cm w)) [0..<nat max_attempts]"
    using se rq by (simp only: up) simp
  moreover have "idx (cm ?w') = idx (cm w) + nat max_attempts" using ix sk by simp
  moreover have "slept ?w' = slept w @ map (\<lambda>j. 2 * 2 ^ j) [0..<nat max_attempts - 1]" using sl by simp
  ultimately show ?thesis by blast
qed


text \<open>
  Claim C5. With a non-empty token pool: when the endpoint answers the first two requests
  of \<^verbatim>\<open>get\<close> with 429 and the third with 200, exactly three requests are sent, the
  third response is returned, the cursor has advanced by three and the waits were 2 and 4
  seconds; when the endpoint always answers 429, \<^verbatim>\<open>get\<close> raises the
  \<^verbatim>\<open>ValueError\<close> for the exhausted retries after exactly \<open>max_attempts\<close> requests,
  the cursor having advanced by \<open>max_attempts\<close>. The ceiling is at least 3 in the first
  case and at least 1 in the second; the default is 5.
\<close>

theorem get_retries_on_429:
  "(tokens (cm w) \<noteq> []
      \<and> (\<forall>req. status_code (srv (length (sent w)) req) = 429)
      \<and> (\<forall>req. status_code (srv (length (sent w) + 1) req) = 429)
      \<and> (\<forall>req. status_code (srv (length (sent w) + 2) req) = 200)
      \<and> 3 \<le> max_attempts \<and> 3 \<le> fuel
    \<longrightarrow> (\<exists>w'. get fuel srv u ps max_attempts w
               = Some (Inr (srv (length (sent w) + 2) (get_request u (get_params u ps) (cm w) 2)), w')
            \<and> sent w' = sent w @ map (get_request u (get_params u ps) (cm w)) [0..<3]
            \<and> idx (cm w') = idx (cm w) + 3
            \<and> slept w' = slept w @ [2, 4]))
   \<and> (tokens (cm w) \<noteq> []
      \<and> (\<forall>k req. status_code (srv k req) = 429)
      \<and> 1 \<le> max_attempts \<and> nat max_attempts \<le> fuel
    \<longrightarrow> (\<exists>w'. get fuel srv u ps max_attempts w
               = Some (Inl (ValueError ''Rate-limited. Max attempts exceeded.''), w')
            \<and> sent w' = sent w @ map (get_request u (get_params u ps) (cm w)) [0..<nat max_attempts]
            \<and> idx (cm w') = idx (cm w) + nat max_attempts
            \<and> slept w' = slept w @ map (\<lambda>j. 2 * 2 ^ j) [0..<nat max_attempts - 1]))"
proof (intro conjI impI)
  assume h: "tokens (cm w) \<noteq> []
      \<and> (\<forall>req. status_code (srv (length (sent w)) req) = 429)
      \<and> (\<forall>req. status_code (srv (length (sent w) + 1) req) = 429)
      \<and> (\<forall>req. status_code (srv (length (sent w) + 2) req) = 200)
      \<and> 3 \<le> max_attempts \<and> 3 \<le> fuel"
  then have "max_attempts \<noteq> 1" "max_attempts \<noteq> 2" by simp_all
  with h show "\<exists>w'. get fuel srv u ps max_attempts w
               = Some (Inr (srv (length (sent w) + 2) (get_request u (get_params u ps) (cm w) 2)), w')
            \<and> sent w' = sent w @ map (get_request u (get_params u ps) (cm w)) [0..<3]
            \<and> idx (cm w') = idx (cm w) + 3
            \<and> slept w' = slept w @ [2, 4]"
    by (intro get_twice_429_then_ok) simp_all
next
  assume h: "tokens (cm w) \<noteq> []
      \<and> (\<forall>k req. status_code (srv k req) = 429)
      \<and> 1 \<le> max_attempts \<and> nat max_attempts \<le> fuel"
  then show "\<exists>w'. get fuel srv u ps max_attempts w
               = Some (Inl (ValueError ''Rate-limited. Max attempts exceeded.''), w')
            \<and> sent w' = sent w @ map (get_request u (get_params u ps) (cm w)) [0..<nat max_attempts]
            \<and> idx (cm w') = idx (cm w) + nat max_attempts
            \<and> slept w' = slept w @ map (\<lambda>j. 2 * 2 ^ j) [0..<nat max_attempts - 1]"
    by (intro get_always_429) simp_all
qed

theorem get_retries_on_429_witness:
  "tokens (cm (init_world [''t1'', ''t2''])) \<noteq> []
   \<and> (\<forall>req. status_code (flaky_server 0 req) = 429)
   \<and> (\<forall>req. status_code (flaky_server 1 req) = 429)
   \<and> (\<forall>req. status_code (flaky_server 2 req) = 200)
   \<and> (\<exists>w'. get 5 flaky_server ''https://api.snyk.io/rest/orgs'' [] 5 (init_world [''t1'', ''t2''])
               = Some (Inr \<lparr>status_code = 200, payload = Some (JObj [])\<rparr>, w')
            \<and> length (sent w') = 3 \<and> idx (cm w') = 3 \<and> slept w' = [2, 4])
   \<and> (\<forall>k req. status_code (limited_server k req) = 429)
   \<and> (\<exists>w'. get 5 limited_server ''https://api.snyk.io/rest/orgs'' [] 5 (init_world [''t1'', ''t2''])
               = Some (Inl (ValueError ''Rate-limited. Max attempts exceeded.''), w')
            \<and> length (sent w') = 5 \<and> idx (cm w') = 5 \<and> slept w' = [2, 4, 8, 16])"
proof -
  let ?w = "init_world [''t1'', ''t2'']"
  let ?u = "''https://api.snyk.io/rest/orgs''"
  have pool: "tokens (cm ?w) \<noteq> []" and len: "length (sent ?w) = 0" and sl: "slept ?w = []"
    and ix: "idx (cm ?w) = 0"
    by (simp_all add: init_world_def new_manager_def)
  have f: "\<forall>req. status_code (flaky_server 0 req) = 429"
    "\<forall>req. status_code (flaky_server 1 req) = 429"
    "\<forall>req. status_code (flaky_server 2 req) = 200"
    by (simp_all add: flaky_server_def)
  have l: "\<forall>k req. status_code (limited_server k req) = 429"
    by (simp add: limited_server_def)
  have "[0..<4] = [0, 1, 2, 3::nat]"
    by (simp add: upt_conv_Cons)
  then have up4: "map (\<lambda>j. 2 * 2 ^ j) [0..<4] = [2, 4, 8, 16::nat]"
    by simp
  have a: "\<exists>w'. get 5 flaky_server ?u [] 5 ?w
               = Some (Inr \<lparr>status_code = 200, payload = Some (JObj [])\<rparr>, w')
            \<and> length (sent w') = 3 \<and> idx (cm w') = 3 \<and> slept w' = [2, 4]"
    using get_retries_on_429 [of ?w flaky_server 5 5 ?u "[]", THEN conjunct1] pool f
    by (auto simp: len sl ix flaky_server_def)
  have b: "\<exists>w'. get 5 limited_server ?u [] 5 ?w
               = Some (Inl (ValueError ''Rate-limited. Max attempts exceeded.''), w')
            \<and> length (sent w') = 5 \<and> idx (cm w') = 5 \<and> slept w' = [2, 4, 8, 16]"
    using get_retries_on_429 [of ?w limited_server 5 5 ?u "[]", THEN conjunct2] pool l
    by (auto simp: len sl ix up4)
  show ?thesis using pool f l a b by blast
qed

lemma get_loop_sent:
  "get_loop fuel srv u p max_attempts b a w = Some (res, w') \<Longrightarrow>
   \<exists>new. sent w' = sent w @ new
     \<and> (\<forall>req \<in> set new. req_method req = GET \<and> req_url req = u \<and> req_params req = p)
     \<and> (\<forall>r. res = Inr r \<longrightarrow> new \<noteq> [])"
proof (induction fuel arbitrary: w b a)
  case 0
  then show ?case by simp
next
  case (Suc fuel)
  show ?case
  proof (cases "next_token (cm w)")
    case (Inl e)
    with Suc.prems have "res = Inl e" "w' = w" by simp_all
    then show ?thesis by simp
  next
    case (Inr tm)
    obtain tok m where tm: "tm = (tok, m)" by (cases tm)
    let ?req = "\<lparr>req_method = GET, req_url = u, req_headers = auth_headers tok,
                   req_params = p, req_json = None, req_timeout = 60\<rparr>"
    let ?w1 = "w\<lparr>cm := m, sent := sent w @ [?req]\<rparr>"
    let ?r = "srv (length (sent w)) ?req"
    show ?thesis
    proof (cases "status_code ?r = 429")
      case False
      with Suc.prems Inr tm have "res = Inr ?r" "w' = ?w1"
        by (simp_all add: http_send_def)
      then have "sent w' = sent w @ [?req]" by simp
      then show ?thesis by auto
    next
      case lim: True
      show ?thesis
      proof (cases "a = max_attempts")
        case True
        with Suc.prems Inr tm lim have "w' = ?w1" "res = Inl (ValueError ''Rate-limited. Max attempts exceeded.'')"
          by (simp_all add: http_send_def)
        then have "sent w' = sent w @ [?req]" "\<forall>r. res \<noteq> Inr r" by simp_all
        then show ?thesis by auto
      next
        case False
        let ?w2 = "sleep b (log_msg WARNING (LStr ''Rate-limited. Retrying in %s'') [LNat b] ?w1)"
        from Suc.prems Inr tm lim False
        have "get_loop fuel srv u p max_attempts (b * 2) (a + 1) ?w2 = Some (res, w')"
          by (simp add: http_send_def)
        from Suc.IH [OF this] obtain new where
          n: "sent w' = sent ?w2 @ new"
          "\<forall>req \<in> set new. req_method req = GET \<and> req_url req = u \<and> req_params req = p"
          by blast
        have "sent w' = sent w @ (?req # new)"
          using n(1) by (simp add: sleep_def log_msg_def)
        moreover have "\<forall>req \<in> set (?req # new). req_method req = GET \<and> req_url req = u \<and> req_params req = p"
          using n(2) by simp
        ultimately show ?thesis by blast
      qed
    qed
  qed
qed

lemma get_params_eq:
  "get_params u ps = (if CHR ''?'' \<in> set u then None else Some (default_params ps))"
  by (auto simp: get_params_def default_params_def API_VERSION_def Let_def)

text \<open>
  Claim C10. Every request \<^verbatim>\<open>get\<close> sends carries no query parameters at all when the
  URL contains a \<^verbatim>\<open>?\<close>, whatever the caller supplied; otherwise it carries the caller's
  parameters, followed by \<^verbatim>\<open>version\<close> and \<^verbatim>\<open>limit\<close> where the caller gave none.
\<close>

theorem get_query_parameters:
  "get fuel srv u ps max_attempts w = Some (res, w') \<longrightarrow>
   (\<exists>new. sent w' = sent w @ new
     \<and> (\<forall>r. res = Inr r \<longrightarrow> new \<noteq> [])
     \<and> (\<forall>req \<in> set new. req_method req = GET \<and> req_url req = u
           \<and> req_params req = (if CHR ''?'' \<in> set u then None else Some (default_params ps))))"
proof
  assume "get fuel srv u ps max_attempts w = Some (res, w')"
  then have "get_loop fuel srv u (get_params u ps) max_attempts 2 1 w = Some (res, w')"
    by (simp add: get_def)
  from get_loop_sent [OF this] show "\<exists>new. sent w' = sent w @ new
     \<and> (\<forall>r. res = Inr r \<longrightarrow> new \<noteq> [])
     \<and> (\<forall>req \<in> set new. req_method req = GET \<and> req_url req = u
           \<and> req_params req = (if CHR ''?'' \<in> set u then None else Some (default_params ps)))"
    unfolding get_params_eq by blast
qed


theorem get_query_parameters_witness:
  "(\<exists>r w'. get 1 ok_server ''https://api.snyk.io/rest/orgs?limit=10'' [(''limit'', JNum 10)] 5
              (init_world [''t1'']) = Some (Inr r, w')
        \<and> sent w' \<noteq> [] \<and> (\<forall>req \<in> set (sent w'). req_params req = None))
   \<and> (\<exists>r w'. get 1 ok_server ''https://api.snyk.io/rest/orgs'' [(''limit'', JNum 10)] 5
              (init_world [''t1'']) = Some (Inr r, w')
        \<and> sent w' \<noteq> []
        \<and> (\<forall>req \<in> set (sent w').
              req_params req = Some [(''limit'', JNum 10), (''version'', JStr ''2024-10-15'')]))"
proof -
  let ?w = "init_world [''t1'']"
  let ?ps = "[(''limit'', JNum 10)]"
  have s0: "sent ?w = []" by (simp add: init_world_def)
  obtain r1 w1 where e1: "get 1 ok_server ''https://api.snyk.io/rest/orgs?limit=10'' ?ps 5 ?w = Some (Inr r1, w1)"
    by (simp add: get_def get_params_def init_world_def new_manager_def next_token_def
        http_send_def ok_server_def)
  obtain r2 w2 where e2: "get 1 ok_server ''https://api.snyk.io/rest/orgs'' ?ps 5 ?w = Some (Inr r2, w2)"
    by (simp add: get_def get_params_def init_world_def new_manager_def next_token_def
        http_send_def ok_server_def)
  have a: "sent w1 \<noteq> [] \<and> (\<forall>req \<in> set (sent w1). req_params req = None)"
    using get_query_parameters [of 1 ok_server "''https://api.snyk.io/rest/orgs?limit=10''" ?ps 5 ?w
        "Inr r1" w1] e1 s0
    by auto
  have b: "sent w2 \<noteq> [] \<and> (\<forall>req \<in> set (sent w2).
              req_params req = Some [(''limit'', JNum 10), (''version'', JStr ''2024-10-15'')])"
    using get_query_parameters [of 1 ok_server "''https://api.snyk.io/rest/orgs''" ?ps 5 ?w
        "Inr r2" w2] e2 s0
    by (auto simp: default_params_def)
  show ?thesis using e1 e2 a b by blast
qed

section \<open>The paginator\<close>

lemma page_step_page:
  assumes "payload r = Some b" and "is_page b"
  shows "\<exists>nxt. page_step r results w
             = (Inr (results @ page_items b, nxt),
                if lacks_data b then log_msg ERROR (LJson b) [] w else w)
          \<and> (case page_next b of None \<Rightarrow> \<not> py_truthy nxt | Some n \<Rightarrow> nxt = JStr n)"
proof -
  from assms(2) obtain kvs where b: "b = JObj kvs" by (cases b) auto
  have inn: "(''data'' \<in> fst ` set kvs) = (map_of kvs ''data'' \<noteq> None)"
    by (simp add: map_of_eq_None_iff)
  show ?thesis
    using assms b
    by (auto simp: page_step_def bind_err_def inn split: option.splits json.splits)
qed


lemma get_not_limited:
  assumes "tokens (cm w) \<noteq> []"
    and "\<forall>req. status_code (srv (length (sent w)) req) \<noteq> 429"
  shows "get (Suc fuel) srv u ps max_attempts w
           = Some (Inr (srv (length (sent w)) (get_request u (get_params u ps) (cm w) 0)),
                   w\<lparr>cm := (cm w)\<lparr>idx := idx (cm w) + 1\<rparr>,
                     sent := sent w @ [get_request u (get_params u ps) (cm w) 0]\<rparr>)"
  unfolding get_def using assms by (intro get_loop_success) simp_all

lemma serves_Cons:
  "serves srv n (b # bs) \<Longrightarrow>
   (\<forall>req. status_code (srv n req) \<noteq> 429 \<and> payload (srv n req) = Some b) \<and> serves srv (Suc n) bs"
proof
  assume s: "serves srv n (b # bs)"
  then have "\<forall>req. status_code (srv (n + 0) req) \<noteq> 429 \<and> payload (srv (n + 0) req) = Some ((b # bs) ! 0)"
    unfolding serves_def by (metis length_greater_0_conv list.distinct(1))
  then show "\<forall>req. status_code (srv n req) \<noteq> 429 \<and> payload (srv n req) = Some b" by simp
  show "serves srv (Suc n) bs"
    unfolding serves_def
  proof (intro allI impI)
    fix k req assume "k < length bs"
    then have "Suc k < length (b # bs)" by simp
    with s have "status_code (srv (n + Suc k) req) \<noteq> 429 \<and> payload (srv (n + Suc k) req) = Some ((b # bs) ! Suc k)"
      unfolding serves_def by blast
    then show "status_code (srv (Suc n + k) req) \<noteq> 429 \<and> payload (srv (Suc n + k) req) = Some (bs ! k)"
      by simp
  qed
qed

lemma get_data_loop_chain:
  assumes "page_chain bodies" and "tokens (cm w) \<noteq> []" and "u \<noteq> []"
    and "serves srv (length (sent w)) bodies" and "length bodies \<le> fuel"
  shows "\<exists>w' new. get_data_loop fuel srv u ps max_attempts results w
             = Some (Inr (results @ concat (map page_items bodies)), w')
          \<and> sent w' = sent w @ new
          \<and> map req_url new = u # map (\<lambda>b. absolute_url (the (page_next b))) (butlast bodies)
          \<and> logged w' = logged w @ map (\<lambda>b. (ERROR, LJson b, [])) (filter lacks_data bodies)
          \<and> slept w' = slept w"
  using assms
proof (induction bodies arbitrary: w u fuel results rule: page_chain.induct)
  case 1
  then show ?case by simp
next
  case (2 b)
  from "2.prems"(5) obtain f where f: "fuel = Suc f" by (cases fuel) auto
  let ?req = "get_request u (get_params u ps) (cm w) 0"
  let ?r = "srv (length (sent w)) ?req"
  let ?w1 = "w\<lparr>cm := (cm w)\<lparr>idx := idx (cm w) + 1\<rparr>, sent := sent w @ [?req]\<rparr>"
  define w2 where "w2 = (if lacks_data b then log_msg ERROR (LJson b) [] ?w1 else ?w1)"
  from serves_Cons [OF "2.prems"(4)]
  have ok: "\<forall>req. status_code (srv (length (sent w)) req) \<noteq> 429" and pl: "payload ?r = Some b"
    by simp_all
  have g: "get (Suc f) srv u ps max_attempts w = Some (Inr ?r, ?w1)"
    using "2.prems"(2) ok by (rule get_not_limited)
  from "2.prems"(1) have pg: "is_page b" and nn: "page_next b = None" by simp_all
  from page_step_page [OF pl pg, of results ?w1] nn
  obtain nxt where ps: "page_step ?r results ?w1 = (Inr (results @ page_items b, nxt), w2)"
    and fin: "\<not> py_truthy nxt" unfolding w2_def by auto
  have "get_data_loop fuel srv u ps max_attempts results w
          = Some (Inr (results @ concat (map page_items [b])), w2)"
    unfolding f using "2.prems"(3) g ps fin by simp
  moreover have "sent w2 = sent w @ [?req]" by (simp add: w2_def log_msg_def)
  moreover have "map req_url [?req] = u # map (\<lambda>b. absolute_url (the (page_next b))) (butlast [b])"
    by (simp add: get_request_def)
  moreover have "logged w2 = logged w @ map (\<lambda>b. (ERROR, LJson b, [])) (filter lacks_data [b])"
    by (simp add: w2_def log_msg_def)
  moreover have "slept w2 = slept w" by (simp add: w2_def log_msg_def)
  ultimately show ?case
    by (intro exI [of _ w2] exI [of _ "[?req]"] conjI)
next
  case (3 b b' bs)
  from "3.prems"(5) obtain f where f: "fuel = Suc f" and fl: "length (b' # bs) \<le> f"
    by (cases fuel) auto
  let ?req = "get_request u (get_params u ps) (cm w) 0"
  let ?r = "srv (length (sent w)) ?req"
  let ?w1 = "w\<lparr>cm := (cm w)\<lparr>idx := idx (cm w) + 1\<rparr>, sent := sent w @ [?req]\<rparr>"
  define w2 where "w2 = (if lacks_data b then log_msg ERROR (LJson b) [] ?w1 else ?w1)"
  from serves_Cons [OF "3.prems"(4)]
  have ok: "\<forall>req. status_code (srv (length (sent w)) req) \<noteq> 429" and pl: "payload ?r = Some b"
    and sv: "serves srv (Suc (length (sent w))) (b' # bs)"
    by simp_all
  have g: "get (Suc f) srv u ps max_attempts w = Some (Inr ?r, ?w1)"
    using "3.prems"(2) ok by (rule get_not_limited)
  from "3.prems"(1) obtain n where pg: "is_page b" and nn: "page_next b = Some n" and ne: "n \<noteq> []"
    and ch: "page_chain (b' # bs)"
    by (auto split: option.splits)
  from page_step_page [OF pl pg, of results ?w1] nn
  obtain nxt where ps: "page_step ?r results ?w1 = (Inr (results @ page_items b, nxt), w2)"
    and nx: "nxt = JStr n" unfolding w2_def by auto
  have step: "get_data_loop fuel srv u ps max_attempts results w
          = get_data_loop f srv (absolute_url n) ps max_attempts (results @ page_items b) w2"
    unfolding f using "3.prems"(3) g ps nx ne by (simp add: absolute_url_def)
  have sent2: "sent w2 = sent w @ [?req]" by (simp add: w2_def log_msg_def)
  have len2: "length (sent w2) = Suc (length (sent w))" by (simp add: sent2)
  have t2: "tokens (cm w2) \<noteq> []" using "3.prems"(2) by (simp add: w2_def log_msg_def)
  have lg2: "logged w2 = logged w @ map (\<lambda>b. (ERROR, LJson b, [])) (filter lacks_data [b])"
    by (simp add: w2_def log_msg_def)
  have sp2: "slept w2 = slept w" by (simp add: w2_def log_msg_def)
  have u2: "absolute_url n \<noteq> []" using ne by (simp add: absolute_url_def)
  have sv2: "serves srv (length (sent w2)) (b' # bs)" using sv by (simp only: len2)
  from "3.IH" [OF ch t2 u2 sv2 fl, of "results @ page_items b"]
  obtain w' new where all:
    "get_data_loop f srv (absolute_url n) ps max_attempts (results @ page_items b) w2
          = Some (Inr ((results @ page_items b) @ concat (map page_items (b' # bs))), w')
     \<and> sent w' = sent w2 @ new
     \<and> map req_url new
          = absolute_url n # map (\<lambda>b. absolute_url (the (page_next b))) (butlast (b' # bs))
     \<and> logged w' = logged w2 @ map (\<lambda>b. (ERROR, LJson b, [])) (filter lacks_data (b' # bs))
     \<and> slept w' = slept w2" by (elim exE)
  from all have
    e: "get_data_loop f srv (absolute_url n) ps max_attempts (results @ page_items b) w2
          = Some (Inr ((results @ page_items b) @ concat (map page_items (b' # bs))), w')"
    by (rule conjunct1)
  from all have se: "sent w' = sent w2 @ new"
    by (elim conjE)
  from all have su: "map req_url new
          = absolute_url n # map (\<lambda>b. absolute_url (the (page_next b))) (butlast (b' # bs))"
    by (elim conjE)
  from all have lg: "logged w' = logged w2 @ map (\<lambda>b. (ERROR, LJson b, [])) (filter lacks_data (b' # bs))"
    by (elim conjE)
  from all have sp: "slept w' = slept w2"
    by (elim conjE)
  have a: "get_data_loop fuel srv u ps max_attempts results w
          = Some (Inr (results @ concat (map page_items (b # b' # bs))), w')"
    using step e by simp
  have b: "sent w' = sent w @ (?req # new)"
    using se sent2 by simp
  have c: "logged w' = logged w @ map (\<lambda>b. (ERROR, LJson b, [])) (filter lacks_data (b # b' # bs))"
    using lg lg2 by simp
  have d: "slept w' = slept w" using sp sp2 by simp
  have u: "map req_url (?req # new)
      = u # map (\<lambda>b. absolute_url (the (page_next b))) (butlast (b # b' # bs))"
    using su nn by (simp add: get_request_def)
  show ?case using a b u c d
    by (intro exI [of _ w'] exI [of _ "?req # new"] conjI)
qed


text \<open>
  Claim C6. Let the platform answer the successive requests of \<^verbatim>\<open>get_data\<close> with a chain
  of pages: JSON objects whose \<^verbatim>\<open>data\<close>, when present, is an array and whose
  \<^verbatim>\<open>links.next\<close> is a non-empty string on every page but the last, which has none. With
  a non-empty token pool and no rate limiting, \<^verbatim>\<open>get_data\<close> returns, after one request
  per page, the concatenation of the pages' \<^verbatim>\<open>data\<close> entries in order; each next URL is
  requested as given or prefixed with the API host; a page without \<^verbatim>\<open>data\<close> is logged
  as an error and contributes nothing.
\<close>

theorem get_data_concatenates_pages:
  "tokens (cm w) \<noteq> [] \<and> u \<noteq> [] \<and> page_chain bodies
     \<and> serves srv (length (sent w)) bodies \<and> length bodies \<le> fuel
   \<longrightarrow> (\<exists>w' new. get_data fuel srv u ps max_attempts w
               = Some (Inr (concat (map page_items bodies)), w')
          \<and> sent w' = sent w @ new \<and> length new = length bodies
          \<and> map req_url new = u # map (\<lambda>b. absolute_url (the (page_next b))) (butlast bodies)
          \<and> logged w' = logged w @ map (\<lambda>b. (ERROR, LJson b, [])) (filter lacks_data bodies)
          \<and> slept w' = slept w)"
proof
  assume h: "tokens (cm w) \<noteq> [] \<and> u \<noteq> [] \<and> page_chain bodies
     \<and> serves srv (length (sent w)) bodies \<and> length bodies \<le> fuel"
  then have ch: "page_chain bodies" and pool: "tokens (cm w) \<noteq> []" and u: "u \<noteq> []"
    and sv: "serves srv (length (sent w)) bodies" and fl: "length bodies \<le> fuel"
    by simp_all
  from ch have ne: "bodies \<noteq> []" by (cases bodies) auto
  from get_data_loop_chain [OF ch pool u sv fl, of ps max_attempts "[]"]
  obtain w' new where all:
    "get_data_loop fuel srv u ps max_attempts [] w
        = Some (Inr ([] @ concat (map page_items bodies)), w')
     \<and> sent w' = sent w @ new
     \<and> map req_url new = u # map (\<lambda>b. absolute_url (the (page_next b))) (butlast bodies)
     \<and> logged w' = logged w @ map (\<lambda>b. (ERROR, LJson b, [])) (filter lacks_data bodies)
     \<and> slept w' = slept w" by (elim exE)
  from all have a: "get_data fuel srv u ps max_attempts w
               = Some (Inr (concat (map page_items bodies)), w')"
    by (simp add: get_data_def)
  from all have b: "sent w' = sent w @ new" by (elim conjE)
  from all have c: "map req_url new = u # map (\<lambda>b. absolute_url (the (page_next b))) (butlast bodies)"
    by (elim conjE)
  from all have d: "logged w' = logged w @ map (\<lambda>b. (ERROR, LJson b, [])) (filter lacks_data bodies)"
    by (elim conjE)
  from all have e: "slept w' = slept w" by (elim conjE)
  have "length (map req_url new) = Suc (length (butlast bodies))"
    by (simp only: c) simp
  then have l: "length new = length bodies" using ne by simp
  show "\<exists>w' new. get_data fuel srv u ps max_attempts w
               = Some (Inr (concat (map page_items bodies)), w')
          \<and> sent w' = sent w @ new \<and> length new = length bodies
          \<and> map req_url new = u # map (\<lambda>b. absolute_url (the (page_next b))) (butlast bodies)
          \<and> logged w' = logged w @ map (\<lambda>b. (ERROR, LJson b, [])) (filter lacks_data bodies)
          \<and> slept w' = slept w"
    using a b l c d e by (intro exI [of _ w'] exI [of _ new] conjI)
qed

theorem get_data_concatenates_pages_witness:
  "tokens (cm (init_world [''t1''])) \<noteq> [] \<and> ''https://api.snyk.io/rest/p1'' \<noteq> []
   \<and> page_chain three_pages
   \<and> serves (pages_server three_pages) (length (sent (init_world [''t1'']))) three_pages
   \<and> length three_pages \<le> 3
   \<and> (\<exists>w' new. get_data 3 (pages_server three_pages) ''https://api.snyk.io/rest/p1'' [] 5
                   (init_world [''t1''])
               = Some (Inr [JNum 1, JNum 2, JNum 3], w')
          \<and> sent w' = new \<and> length new = 3
          \<and> map req_url new = [''https://api.snyk.io/rest/p1'', ''https://api.snyk.io/rest/p2'',
                                 ''https://api.snyk.io/rest/p3'']
          \<and> logged w' = [(ERROR, LJson (three_pages ! 1), [])]
          \<and> slept w' = [])"
proof -
  let ?w = "init_world [''t1'']"
  have w: "tokens (cm ?w) \<noteq> []" "sent ?w = []" "logged ?w = []" "slept ?w = []"
    by (simp_all add: init_world_def new_manager_def)
  have ch: "page_chain three_pages" by (simp add: three_pages_def)
  have sv: "serves (pages_server three_pages) (length (sent ?w)) three_pages"
    by (auto simp: serves_def pages_server_def w)
  have len: "length three_pages \<le> 3" by (simp add: three_pages_def)
  have items: "concat (map page_items three_pages) = [JNum 1, JNum 2, JNum 3]"
    by (simp add: three_pages_def)
  have urls: "map (\<lambda>b. absolute_url (the (page_next b))) (butlast three_pages)
      = [''https://api.snyk.io/rest/p2'', ''https://api.snyk.io/rest/p3'']"
    by (simp add: three_pages_def absolute_url_def)
  have lack: "filter lacks_data three_pages = [three_pages ! 1]"
    by (simp add: three_pages_def)
  have l3: "length three_pages = 3" by (simp add: three_pages_def)
  have "\<exists>w' new. get_data 3 (pages_server three_pages) ''https://api.snyk.io/rest/p1'' [] 5 ?w
               = Some (Inr [JNum 1, JNum 2, JNum 3], w')
          \<and> sent w' = new \<and> length new = 3
          \<and> map req_url new = [''https://api.snyk.io/rest/p1'', ''https://api.snyk.io/rest/p2'',
                                 ''https://api.snyk.io/rest/p3'']
          \<and> logged w' = [(ERROR, LJson (three_pages ! 1), [])]
          \<and> slept w' = []"
    using get_data_concatenates_pages [of ?w "''https://api.snyk.io/rest/p1''" three_pages
        "pages_server three_pages" 3 "[]" 5] w ch sv len
    by (simp add: items urls lack l3)
  then show ?thesis using w ch sv len by simp
qed

section \<open>The asset search and the resolver\<close>

lemma fetch_repo_data_loop_exit:
  "fetch_repo_data_loop fuel srv u q max_attempts b a w = Some (Inr r, w') \<Longrightarrow> status_code r = 429"
proof (induction fuel arbitrary: w)
  case 0
  then show ?case by simp
next
  case (Suc fuel)
  then show ?case
    by (auto simp: http_send_def split: sum.splits prod.splits if_splits)
qed

lemma fetch_repo_data_no_result:
  "fetch_repo_data fuel srv repo g max_attempts w \<noteq> Some (Inr v, w')"
proof
  assume h: "fetch_repo_data fuel srv repo g max_attempts w = Some (Inr v, w')"
  then obtain r where l: "fetch_repo_data_loop fuel srv (search_url g) (search_query repo) max_attempts 2 1 w
      = Some (Inr r, w')"
    and k: "bind_err (raise_for_status r)
              (\<lambda>_. case payload r of None \<Rightarrow> Inl JSONDecodeError | Some d \<Rightarrow> py_getitem d ''data'') = Inr v"
    by (auto simp: fetch_repo_data_def split: option.splits sum.splits prod.splits)
  from fetch_repo_data_loop_exit [OF l] have "raise_for_status r = Inl (HTTPError 429)"
    by (simp add: raise_for_status_def)
  with k show False by (simp add: bind_err_def)
qed

lemma fetch_repo_data_loop_spins:
  assumes "tokens (cm w) \<noteq> []" and "\<forall>k req. status_code (srv k req) \<noteq> 429"
  shows "fetch_repo_data_loop fuel srv u q max_attempts b a w = None"
  using assms(1)
proof (induction fuel arbitrary: w)
  case 0
  then show ?case by simp
next
  case (Suc fuel)
  let ?m = "(cm w)\<lparr>idx := idx (cm w) + 1\<rparr>"
  let ?req = "\<lparr>req_method = POST, req_url = u,
      req_headers = auth_headers (tokens (cm w) ! (idx (cm w) mod length (tokens (cm w)))),
      req_params = Some [(''version'', JStr ''2024-10-15'')],
      req_json = Some q, req_timeout = 60\<rparr>"
  let ?w1 = "w\<lparr>cm := ?m, sent := sent w @ [?req]\<rparr>"
  have "fetch_repo_data_loop (Suc fuel) srv u q max_attempts b a w
      = fetch_repo_data_loop fuel srv u q max_attempts b a ?w1"
    using Suc.prems assms(2) by (simp add: next_token_def http_send_def)
  moreover have "tokens (cm ?w1) \<noteq> []" using Suc.prems by simp
  ultimately show ?case using Suc.IH by simp
qed

lemma fetch_repo_data_spins:
  assumes "tokens (cm w) \<noteq> []" and "\<forall>k req. status_code (srv k req) \<noteq> 429"
  shows "fetch_repo_data fuel srv repo g max_attempts w = None"
  using fetch_repo_data_loop_spins [OF assms] by (simp add: fetch_repo_data_def)

lemma fetch_organizations_spins:
  assumes "tokens (cm w) \<noteq> []" and "\<forall>k req. status_code (srv k req) \<noteq> 429"
  shows "fetch_organizations fuel lib srv repo g w = None"
  using fetch_repo_data_spins [OF assms] by (simp add: fetch_organizations_def)

lemma resolver_server_ok: "\<forall>k req. status_code (resolver_server assets projects k req) \<noteq> 429"
  by (simp add: resolver_server_def split: http_method.splits)

text \<open>
  Claim C2 says that \<^verbatim>\<open>fetch_repo_data\<close> waits and retries on every 429 until the
  ceiling is reached. The code does not: with the default ceiling of 5 and a platform that
  answers 429, the loop is left at the first answer, nothing is slept, no second request
  is sent, and \<^verbatim>\<open>raise_for_status\<close> raises the HTTP error for status 429.
\<close>

theorem fetch_repo_data_surfaces_first_429:
  "\<exists>w'. fetch_repo_data (Suc fuel) limited_server repo g 5 (init_world [''t1'', ''t2''])
           = Some (Inl (HTTPError 429), w')
         \<and> length (sent w') = 1 \<and> slept w' = [] \<and> idx (cm w') = 1"
  by (simp add: fetch_repo_data_def next_token_def http_send_def limited_server_def init_world_def
      new_manager_def raise_for_status_def bind_err_def)

text \<open>
  Claim C1 says that \<^verbatim>\<open>fetch_organizations\<close> returns the organizations owning a project
  with a test surface other than \<^verbatim>\<open>cli\<close>. On a platform that answers the asset search
  with status 200 and one asset with organizations A and B, the code never returns: the
  loop of \<^verbatim>\<open>fetch_repo_data\<close> has no exit for an answer other than 429, so no amount of
  fuel yields a result. (The part of the function after the search does compute the
  claimed list from the search result, see \<open>organizations_of_assets_filters\<close> below.)
\<close>

theorem fetch_organizations_single_match_never_returns:
  "fetch_organizations fuel lib (resolver_server (JArr [asset_AB]) projects_AB) repo g
     (init_world [''t1'']) = None"
  by (rule fetch_organizations_spins)
     (simp_all add: init_world_def new_manager_def resolver_server_ok)


lemma scm_org_ids_projects:
  assumes "\<forall>p \<in> set ps. is_project p"
  shows "\<exists>ids. scm_org_ids ps = Inr ids
           \<and> (\<forall>i \<in> set ids. \<exists>s. i = JStr s)
           \<and> (\<forall>i. i \<in> set ids \<longleftrightarrow> owns_scm_project ps i)"
  using assms
proof (induction ps)
  case Nil
  then show ?case by (simp add: owns_scm_project_def)
next
  case (Cons p ps)
  then obtain ids where ih: "scm_org_ids ps = Inr ids" "\<forall>i \<in> set ids. \<exists>s. i = JStr s"
    "\<forall>i. i \<in> set ids \<longleftrightarrow> owns_scm_project ps i"
    by auto
  from Cons.prems have "is_project p" by simp
  then obtain oid ts where a1: "project_attr p ''organization_id'' = Some oid"
    and a2: "project_attr p ''test_surface'' = Some ts"
    and st: "case oid of JStr i \<Rightarrow> True | _ \<Rightarrow> False"
    by (cases "project_attr p ''organization_id''") (auto simp: is_project_def)
  from st obtain i where oid: "oid = JStr i" by (cases oid) auto
  from a1 a2 oid obtain kvs as where p: "p = JObj kvs" "map_of kvs ''attributes'' = Some (JObj as)"
    "map_of as ''organization_id'' = Some (JStr i)" "map_of as ''test_surface'' = Some ts"
    by (auto simp: project_attr_def split: json.splits option.splits)
  have attr: "project_attr p ''organization_id'' = Some (JStr i)" "project_attr p ''test_surface'' = Some ts"
    using p by (simp_all add: project_attr_def)
  show ?case
  proof (cases "ts = JStr ''cli''")
    case True
    then have "scm_org_ids (p # ps) = Inr ids"
      using p ih(1) by (simp add: bind_err_def)
    moreover have "\<forall>j. owns_scm_project (p # ps) j \<longleftrightarrow> owns_scm_project ps j"
      using attr True by (simp add: owns_scm_project_def)
    ultimately show ?thesis using ih by simp
  next
    case False
    then have "scm_org_ids (p # ps) = Inr (JStr i # ids)"
      using p ih(1) by (simp add: bind_err_def)
    moreover have "\<forall>j. owns_scm_project (p # ps) j \<longleftrightarrow> j = JStr i \<or> owns_scm_project ps j"
      using attr False by (auto simp: owns_scm_project_def)
    ultimately show ?thesis using ih by auto
  qed
qed

lemma scm_orgs_filter:
  assumes "\<forall>org \<in> set orgs. has_string_id org" and "\<forall>i \<in> set ids. \<exists>s. i = JStr s"
  shows "scm_orgs ids orgs = Inr (filter (\<lambda>org. org_id org \<in> set ids) orgs)"
  using assms(1)
proof (induction orgs)
  case Nil
  then show ?case by simp
next
  case (Cons org orgs)
  then obtain s where s: "org_id org = JStr s"
    by (auto simp: has_string_id_def split: json.splits)
  have "list_ex (py_eq (JStr s)) ids \<longleftrightarrow> JStr s \<in> set ids"
    using assms(2) by (induction ids) auto
  then show ?case using Cons s by (simp add: bind_err_def)
qed

lemma organizations_of_assets_filters:
  assumes "repo_orgs asset = Inr orgs" and "orgs \<noteq> []" and "\<forall>org \<in> set orgs. has_string_id org"
    and "project_link asset = Inr link"
    and "get_data fuel srv
           (add_url_params lib (''https://api.snyk.io'' @ py_str lib link) [(''limit'', JNum 100)])
           [] 5 w = Some (Inr projects, w')"
    and "\<forall>p \<in> set projects. is_project p"
  shows "organizations_of_assets fuel lib srv (JArr [asset]) w
           = Some (Inr (Some (filter (\<lambda>org. owns_scm_project projects (org_id org)) orgs)), w')"
proof -
  from scm_org_ids_projects [OF assms(6)] obtain ids where
    ids: "scm_org_ids projects = Inr ids" "\<forall>i \<in> set ids. \<exists>s. i = JStr s"
    "\<forall>i. i \<in> set ids \<longleftrightarrow> owns_scm_project projects i"
    by blast
  have "scm_orgs ids orgs = Inr (filter (\<lambda>org. org_id org \<in> set ids) orgs)"
    using assms(3) ids(2) by (rule scm_orgs_filter)
  then have f: "scm_orgs ids orgs = Inr (filter (\<lambda>org. owns_scm_project projects (org_id org)) orgs)"
    using ids(3) by simp
  show ?thesis
    using assms(1,2,4,5) ids(1) f
    by (simp add: organizations_of_assets_def bind_err_def)
qed

lemma organizations_of_assets_ambiguous:
  "organizations_of_assets fuel lib srv (JArr (a # b # rest)) w
     = Some (Inl (ValueError (str_nat (length (a # b # rest))
                    @ '' matches found. Please narrow your search.'')), w)"
  by (simp add: organizations_of_assets_def)

lemma organizations_of_assets_no_match:
  "organizations_of_assets fuel lib srv (JArr []) w = Some (Inr None, w)"
  by (simp add: organizations_of_assets_def)

lemma organizations_of_assets_no_organization:
  "organizations_of_assets fuel lib srv (JArr [asset_json []]) w = Some (Inr (Some []), w)"
  by (simp add: organizations_of_assets_def asset_json_def repo_orgs_def bind_err_def)

lemma organizations_of_assets_AB:
  assumes "add_url_params lib (''https://api.snyk.io'' @ ''/rest/groups/g/assets/asset-1/relationships/projects'')
             [(''limit'', JNum 100)] \<noteq> []"
  shows "\<exists>w'. organizations_of_assets (Suc fuel) lib (resolver_server assets projects_AB) (JArr [asset_AB])
             (init_world [''t1''])
           = Some (Inr (Some [\<lparr>org_id = JStr ''A'', org_name = JStr ''Org A''\<rparr>]), w')"
  using assms
  by (simp add: organizations_of_assets_def asset_AB_def asset_json_def org_json_def repo_orgs_def
      Organization_def project_link_def py_str_def bind_err_def get_data_def get_def
      next_token_def http_send_def init_world_def new_manager_def resolver_server_def
      page_step_def projects_AB_def project_json_def)

text \<open>
  Claim C4 says that two matches for a repository make the operation fail with the
  \<^verbatim>\<open>ValueError\<close> for an ambiguous repository, whatever the fallback flag. On a platform
  that answers the asset search with status 200 and two assets, \<^verbatim>\<open>main\<close> never returns
  and never raises, for either value of the flag: the search loop never ends. (Given the
  two matches, the part of \<^verbatim>\<open>fetch_organizations\<close> after the search does raise that error,
  see \<open>organizations_of_assets_ambiguous\<close>.)
\<close>

theorem main_two_matches_never_returns:
  "main fuel lib (resolver_server (JArr [asset_AB, asset_AB]) projects_AB) [''t1''] args w = None"
proof -
  have "fetch_organizations fuel lib (resolver_server (JArr [asset_AB, asset_AB]) projects_AB)
          (target_name args) (group_id args) (w\<lparr>cm := new_manager [''t1'']\<rparr>) = None"
    by (rule fetch_organizations_spins) (simp_all add: new_manager_def resolver_server_ok)
  then show ?thesis by (simp add: main_def)
qed

text \<open>
  Claim C9 says that zero matches give the absent result and one match without
  organizations gives the empty list. On a platform that answers the asset search with
  status 200 and either no asset or one asset without organizations,
  \<^verbatim>\<open>fetch_organizations\<close> produces neither: it never returns. (Given those search
  results, the part of the function after the search yields \<open>None\<close> and the empty list,
  see \<open>organizations_of_assets_no_match\<close> and \<open>organizations_of_assets_no_organization\<close>.)
\<close>

theorem fetch_organizations_not_found_never_returns:
  "fetch_organizations fuel lib (resolver_server (JArr []) []) repo g (init_world [''t1'']) = None
   \<and> fetch_organizations fuel lib (resolver_server (JArr [asset_json []]) []) repo g
        (init_world [''t1'']) = None"
proof
  show "fetch_organizations fuel lib (resolver_server (JArr []) []) repo g (init_world [''t1'']) = None"
    by (rule fetch_organizations_spins)
       (simp_all add: init_world_def new_manager_def resolver_server_ok)
  show "fetch_organizations fuel lib (resolver_server (JArr [asset_json []]) []) repo g
        (init_world [''t1'']) = None"
    by (rule fetch_organizations_spins)
       (simp_all add: init_world_def new_manager_def resolver_server_ok)
qed

end
